theory Spec2Isabelle
  imports Main
begin

section \<open>Data model of the nonogram board\<close>

text \<open>
  Embedding of \<^verbatim>\<open>nonogrammeroo.py\<close>.  Python exceptions are values: every
  function that can raise returns \<open>error + 'a\<close>, with \<open>Inl\<close> for the exception.
  \<open>IndexError\<close> is raised by the explicit range check of \<^verbatim>\<open>constraint_of\<close> and by
  list indexing out of range, \<open>ValueError\<close> by \<^verbatim>\<open>max\<close> of an empty list.
\<close>

datatype error = IndexError | ValueError

definition bindE :: "error + 'a \<Rightarrow> ('a \<Rightarrow> error + 'b) \<Rightarrow> error + 'b" where
  "bindE m f = (case m of Inl e \<Rightarrow> Inl e | Inr v \<Rightarrow> f v)"

text \<open>A list comprehension whose filter may raise: the first exception ends it.\<close>

fun filterE :: "('a \<Rightarrow> error + bool) \<Rightarrow> 'a list \<Rightarrow> error + 'a list" where
  "filterE P [] = Inr []"
| "filterE P (a # as) =
     bindE (P a) (\<lambda>keep. bindE (filterE P as) (\<lambda>rest. Inr (if keep then a # rest else rest)))"

text \<open>A list comprehension whose body may raise.\<close>

fun mapE :: "('a \<Rightarrow> error + 'b) \<Rightarrow> 'a list \<Rightarrow> error + 'b list" where
  "mapE f [] = Inr []"
| "mapE f (a # as) = bindE (f a) (\<lambda>v. bindE (mapE f as) (\<lambda>rest. Inr (v # rest)))"

text \<open>Class \<^verbatim>\<open>Cell\<close>: one boolean, full (\<open>True\<close>) or empty.\<close>

record Cell =
  cell_value :: bool

definition new_Cell :: Cell where
  "new_Cell = \<lparr>cell_value = False\<rparr>"

text \<open>
  Class \<^verbatim>\<open>Coordinates\<close>.  Coordinates are only ever built from \<^verbatim>\<open>range(size)\<close>,
  so both components are naturals.
\<close>

record Coordinates =
  coord_x :: nat
  coord_y :: nat

text \<open>Class \<^verbatim>\<open>Region\<close>: a line of cells and the run lengths asked of it.\<close>

record Region =
  region :: "Coordinates list"
  constraint :: "int list"

definition new_Region :: "Coordinates list \<Rightarrow> Region" where
  "new_Region indexes = \<lparr>region = indexes, constraint = []\<rparr>"

text \<open>
  \<^verbatim>\<open>Region.is_row\<close> and \<^verbatim>\<open>Region.is_column\<close> read \<^verbatim>\<open>self.region[0]\<close>, which raises
  on an empty region.
\<close>

definition is_row :: "Region \<Rightarrow> error + bool" where
  "is_row r =
     (case region r of
        [] \<Rightarrow> Inl IndexError
      | p # _ \<Rightarrow> Inr (count_list (map coord_x (region r)) (coord_x p) = length (region r)))"

definition is_column :: "Region \<Rightarrow> error + bool" where
  "is_column r =
     (case region r of
        [] \<Rightarrow> Inl IndexError
      | p # _ \<Rightarrow> Inr (count_list (map coord_y (region r)) (coord_y p) = length (region r)))"

text \<open>
  Variables of the constraint solver.  A variable is identified by its position in the
  model (the order of creation); its name is kept beside it.  The three name formats of
  the source are \<^verbatim>\<open>"{row}-{col}"\<close> for a cell, \<^verbatim>\<open>"{index}{type}-space_{k}"\<close> for
  a gap and \<^verbatim>\<open>"{index}{type}-el_{k}"\<close> for a run element, with type \<^verbatim>\<open>r\<close> or \<^verbatim>\<open>c\<close>.
\<close>

datatype region_type = RowType | ColumnType

datatype var_name =
    CellName nat nat
  | SpaceName nat region_type nat
  | ElName nat region_type nat

record IntVar =
  Index :: nat
  Name :: var_name

text \<open>Class \<^verbatim>\<open>NonogramBoard\<close>.  A solution is the list of (variable, value) pairs.\<close>

record NonogramBoard =
  board_size :: int
  board :: "Cell list list"
  regions :: "Region list"
  solutions :: "(IntVar \<times> int) list list"

section \<open>Construction and constraint assignment\<close>

text \<open>
  \<^verbatim>\<open>NonogramBoard.__init__\<close>.  \<^verbatim>\<open>[ [ Cell() ] * size ] * size\<close> and \<^verbatim>\<open>range( size )\<close>
  are empty for a size below one, which \<open>nat\<close> reproduces.  The loop appends, for each
  \<open>i\<close>, the region of fixed \<open>x = i\<close> and then the region of fixed \<open>y = i\<close>.
\<close>

definition row_line :: "nat \<Rightarrow> nat \<Rightarrow> Coordinates list" where
  "row_line n i = map (\<lambda>j. \<lparr>coord_x = i, coord_y = j\<rparr>) [0..<n]"

definition column_line :: "nat \<Rightarrow> nat \<Rightarrow> Coordinates list" where
  "column_line n i = map (\<lambda>j. \<lparr>coord_x = j, coord_y = i\<rparr>) [0..<n]"

definition NonogramBoard_init :: "int \<Rightarrow> NonogramBoard" where
  "NonogramBoard_init sz =
     \<lparr>board_size = sz,
      board = replicate (nat sz) (replicate (nat sz) new_Cell),
      regions = fold (\<lambda>i rs. rs @ [new_Region (row_line (nat sz) i)]
                                 @ [new_Region (column_line (nat sz) i)])
                     [0..<nat sz] [],
      solutions = []\<rparr>"

text \<open>
  \<^verbatim>\<open>NonogramBoard.constraint_of\<close>.  The two list comprehensions select regions of the
  board; \<^verbatim>\<open>selected[ 0 ]\<close> is a reference into \<^verbatim>\<open>self.regions\<close>, modelled by the
  position of the region in that list, and the assignment updates the region there.
  Any direction other than \<^verbatim>\<open>"row"\<close> takes the column branch.
\<close>

definition row_selected :: "int \<Rightarrow> Region \<Rightarrow> error + bool" where
  "row_selected index r =
     bindE (is_row r) (\<lambda>b.
       if b then (case region r of
                    [] \<Rightarrow> Inl IndexError
                  | p # _ \<Rightarrow> Inr (int (coord_x p) = index))
       else Inr False)"

definition column_selected :: "int \<Rightarrow> Region \<Rightarrow> error + bool" where
  "column_selected index r =
     bindE (is_column r) (\<lambda>b.
       if b then (case region r of
                    [] \<Rightarrow> Inl IndexError
                  | p # _ \<Rightarrow> Inr (int (coord_y p) = index))
       else Inr False)"

definition constraint_of ::
    "string \<Rightarrow> int \<Rightarrow> int list \<Rightarrow> NonogramBoard \<Rightarrow> error + NonogramBoard" where
  "constraint_of direction index cs b =
     (if \<not> (0 \<le> index \<and> index < board_size b) then Inl IndexError
      else
        bindE (filterE (\<lambda>k. (if direction = ''row'' then row_selected index
                               else column_selected index) (regions b ! k))
                       [0..<length (regions b)])
          (\<lambda>selected.
             case selected of
               [] \<Rightarrow> Inl IndexError
             | k # _ \<Rightarrow> Inr (b\<lparr>regions := (regions b)[k := (regions b ! k)\<lparr>constraint := cs\<rparr>]\<rparr>)))"

section \<open>The constraint-programming model\<close>

text \<open>
  The model builder of the solver library, as the source uses it: a model is the list of
  the variables' domains, in order of creation, and the list of constraints added.
  \<^verbatim>\<open>NewIntVar\<close> returns the new variable and appends its domain.  Three shapes of
  constraint occur in \<^verbatim>\<open>solve\<close>:
  \<^item> \<open>SumEq vs c\<close> for \<^verbatim>\<open>model.Add( LinearExpr.Sum( vs ) == c )\<close>,
  \<^item> \<open>VarEq v vs c\<close> for \<^verbatim>\<open>model.Add( v == LinearExpr.Sum( vs ) + c )\<close>,
  \<^item> \<open>Element i vs t\<close> for \<^verbatim>\<open>model.AddElement( i, vs, t )\<close>, that is \<open>vs[i] = t\<close>.
\<close>

datatype ct =
    SumEq "IntVar list" int
  | VarEq IntVar "IntVar list" int
  | Element IntVar "IntVar list" int

record CpModel =
  variables :: "(int \<times> int) list"
  constraints :: "ct list"

definition new_CpModel :: CpModel where
  "new_CpModel = \<lparr>variables = [], constraints = []\<rparr>"

definition NewIntVar :: "int \<Rightarrow> int \<Rightarrow> var_name \<Rightarrow> CpModel \<Rightarrow> IntVar \<times> CpModel" where
  "NewIntVar lb ub name m =
     (\<lparr>Index = length (variables m), Name = name\<rparr>, m\<lparr>variables := variables m @ [(lb, ub)]\<rparr>)"

definition NewBoolVar :: "var_name \<Rightarrow> CpModel \<Rightarrow> IntVar \<times> CpModel" where
  "NewBoolVar name m = NewIntVar 0 1 name m"

definition Add :: "ct \<Rightarrow> CpModel \<Rightarrow> CpModel" where
  "Add c m = m\<lparr>constraints := constraints m @ [c]\<rparr>"

definition AddElement :: "IntVar \<Rightarrow> IntVar list \<Rightarrow> int \<Rightarrow> CpModel \<Rightarrow> CpModel" where
  "AddElement i vs t m = Add (Element i vs t) m"

text \<open>
  Python integers are unbounded and are \<open>int\<close> here.  The solver library stores bounds and
  coefficients in 64 bits and refuses a value outside that range; the model of the
  builder has no such refusal, so what is proved of the compiled model is proved for
  boards whose size and run lengths stay within that range.
\<close>

text \<open>An assignment gives every variable a value, by position.\<close>

definition Value :: "int list \<Rightarrow> IntVar \<Rightarrow> int" where
  "Value a v = a ! Index v"

fun holds :: "int list \<Rightarrow> ct \<Rightarrow> bool" where
  "holds a (SumEq vs c) = (sum_list (map (Value a) vs) = c)"
| "holds a (VarEq v vs c) = (Value a v = sum_list (map (Value a) vs) + c)"
| "holds a (Element i vs t) =
     (0 \<le> Value a i \<and> Value a i < int (length vs) \<and> Value a (vs ! nat (Value a i)) = t)"

definition in_domains :: "CpModel \<Rightarrow> int list \<Rightarrow> bool" where
  "in_domains m a = list_all2 (\<lambda>v d. fst d \<le> v \<and> v \<le> snd d) a (variables m)"

definition satisfies :: "CpModel \<Rightarrow> int list \<Rightarrow> bool" where
  "satisfies m a = (in_domains m a \<and> list_all (holds a) (constraints m))"

text \<open>
  Class \<^verbatim>\<open>CpSolutionPrinter\<close>: the callback appends, for each solution found, the pairs
  of every cell variable and every region variable with its value.
\<close>

record CpSolutionPrinter =
  cell_variables :: "IntVar list"
  region_variables :: "IntVar list"
  printer_solutions :: "(IntVar \<times> int) list list"

definition new_CpSolutionPrinter :: "IntVar list \<Rightarrow> IntVar list \<Rightarrow> CpSolutionPrinter" where
  "new_CpSolutionPrinter cells regs =
     \<lparr>cell_variables = cells, region_variables = regs, printer_solutions = []\<rparr>"

definition printer_variables :: "CpSolutionPrinter \<Rightarrow> IntVar list" where
  "printer_variables p = cell_variables p @ region_variables p"

definition on_solution_callback :: "int list \<Rightarrow> CpSolutionPrinter \<Rightarrow> CpSolutionPrinter" where
  "on_solution_callback a p =
     p\<lparr>printer_solutions :=
         printer_solutions p @ [map (\<lambda>v. (v, Value a v)) (printer_variables p)]\<rparr>"

text \<open>
  Modelled from the spec: \<^verbatim>\<open>CpSolver.SearchForAllSolutions\<close> belongs to the external
  solver library and is not part of the repository.  Following sections 4.3 and 9 of the
  specification, it exhaustively enumerates the assignments of the variables, each within
  its domain, that satisfy every constraint of the model, and invokes the callback once
  for each of them.  The enumeration here runs through the product of the domains.
\<close>

definition all_assignments :: "CpModel \<Rightarrow> int list list" where
  "all_assignments m = product_lists (map (\<lambda>d. [fst d..snd d]) (variables m))"

definition SearchForAllSolutions :: "CpModel \<Rightarrow> CpSolutionPrinter \<Rightarrow> CpSolutionPrinter" where
  "SearchForAllSolutions m p =
     fold on_solution_callback
          (filter (\<lambda>a. list_all (holds a) (constraints m)) (all_assignments m)) p"

section \<open>Compiling the board and solving\<close>

definition nthE :: "'a list \<Rightarrow> nat \<Rightarrow> error + 'a" where
  "nthE xs i = (if i < length xs then Inr (xs ! i) else Inl IndexError)"

fun foldE :: "('a \<Rightarrow> 's \<Rightarrow> error + 's) \<Rightarrow> 'a list \<Rightarrow> 's \<Rightarrow> error + 's" where
  "foldE f [] s = Inr s"
| "foldE f (a # as) s = bindE (f a s) (foldE f as)"

text \<open>The loops of \<^verbatim>\<open>solve\<close> that create one boolean variable for each cell.\<close>

definition cell_step :: "nat \<Rightarrow> nat \<Rightarrow> CpModel \<times> IntVar list \<Rightarrow> CpModel \<times> IntVar list" where
  "cell_step row col s =
     (let (v, m) = NewBoolVar (CellName row col) (fst s) in (m, snd s @ [v]))"

definition row_step :: "nat \<Rightarrow> nat \<Rightarrow> CpModel \<times> IntVar list list \<Rightarrow> CpModel \<times> IntVar list list" where
  "row_step n row s =
     (let (m, vs) = fold (cell_step row) [0..<n] (fst s, []) in (m, (snd s)[row := vs]))"

definition make_cells :: "nat \<Rightarrow> CpModel \<Rightarrow> CpModel \<times> IntVar list list" where
  "make_cells n m = fold (row_step n) [0..<n] (m, replicate n [])"

text \<open>
  The state of the loop over the runs of one region: the model, the gap variables and the
  element variables created so far, and the two counters.
\<close>

record seq_state =
  st_model :: CpModel
  space_variables :: "IntVar list"
  seq_variables :: "IntVar list"
  seq_element :: nat
  seq_cum :: int

definition el_step :: "int \<Rightarrow> nat \<Rightarrow> region_type \<Rightarrow> nat \<Rightarrow> seq_state \<Rightarrow> seq_state" where
  "el_step sz region_index rtype i st =
     (let (v, m) = NewIntVar 0 sz (ElName region_index rtype (seq_element st)) (st_model st);
          seqv = seq_variables st @ [v];
          m' = Add (VarEq (last seqv) (space_variables st) (seq_cum st + int i)) m
      in st\<lparr>st_model := m', seq_variables := seqv, seq_element := seq_element st + 1\<rparr>)"

definition seq_step ::
    "int \<Rightarrow> nat \<Rightarrow> region_type \<Rightarrow> int \<Rightarrow> nat \<Rightarrow> nat \<times> int \<Rightarrow> seq_state \<Rightarrow> seq_state" where
  "seq_step sz region_index rtype space_max len p st =
     (let seq_index = fst p; seq_length = snd p;
          st1 = fold (el_step sz region_index rtype) [0..<nat seq_length] st;
          st2 = st1\<lparr>seq_cum := seq_cum st1 + seq_length\<rparr>;
          min_space_domain = (if seq_index = len then 0 else 1);
          (g, m) = NewIntVar min_space_domain (max 1 space_max)
                     (SpaceName region_index rtype seq_index) (st_model st2)
      in st2\<lparr>st_model := m, space_variables := space_variables st2 @ [g]\<rparr>)"

text \<open>The leading gap of a region and the loop over its runs.\<close>

definition run_loop :: "int \<Rightarrow> nat \<Rightarrow> region_type \<Rightarrow> int list \<Rightarrow> CpModel \<Rightarrow> seq_state" where
  "run_loop sz region_index rtype cs m1 =
     (let space_max = sz - sum_list cs;
          (g0, m2) = NewIntVar 0 space_max (SpaceName region_index rtype 0) m1
      in fold (seq_step sz region_index rtype space_max (length cs))
              (enumerate 1 cs)
              \<lparr>st_model = m2, space_variables = [g0], seq_variables = [],
               seq_element = 0, seq_cum = 0\<rparr>)"

text \<open>
  The body of the loop over the regions, once the kind of the region, its index and its
  cell variables are known: the sum of the cells, the gaps and the runs, the link
  between elements and cells, and the sum of the gaps.
\<close>

definition region_model ::
    "int \<Rightarrow> nat \<Rightarrow> region_type \<Rightarrow> IntVar list \<Rightarrow> int list \<Rightarrow> CpModel \<times> IntVar list
      \<Rightarrow> CpModel \<times> IntVar list" where
  "region_model sz region_index rtype rvars cs s =
     (let m1 = Add (SumEq rvars (sum_list cs)) (fst s);
          space_max = sz - sum_list cs;
          st = run_loop sz region_index rtype cs m1;
          m3 = fold (\<lambda>el_var m. AddElement el_var rvars 1 m) (seq_variables st) (st_model st);
          m4 = Add (SumEq (space_variables st) space_max) m3
      in (m4, snd s @ space_variables st @ seq_variables st))"

text \<open>
  The head of that body: a region that \<^verbatim>\<open>is_row\<close> takes the row of cell variables at
  the \<open>x\<close> of its first coordinate, any other region the column at the \<open>y\<close> of its first
  coordinate.
\<close>

definition region_step ::
    "int \<Rightarrow> IntVar list list \<Rightarrow> Region \<Rightarrow> CpModel \<times> IntVar list \<Rightarrow> error + CpModel \<times> IntVar list" where
  "region_step sz cp_cell r s =
     bindE (is_row r) (\<lambda>row.
     bindE (case region r of [] \<Rightarrow> Inl IndexError | p # _ \<Rightarrow> Inr p) (\<lambda>p.
       let rtype = (if row then RowType else ColumnType);
           region_index = (if row then coord_x p else coord_y p)
       in
       bindE (if row then nthE cp_cell region_index
              else mapE (\<lambda>var. nthE var region_index) cp_cell) (\<lambda>rvars.
         Inr (region_model sz region_index rtype rvars (constraint r) s))))"

text \<open>The model that \<^verbatim>\<open>solve\<close> builds, with the cell and region variables it keeps.\<close>

definition compile :: "NonogramBoard \<Rightarrow> error + (CpModel \<times> IntVar list list \<times> IntVar list)" where
  "compile b =
     (let (m, cp_cell) = make_cells (nat (board_size b)) new_CpModel
      in bindE (foldE (region_step (board_size b) cp_cell) (regions b) (m, []))
           (\<lambda>s. Inr (fst s, cp_cell, snd s)))"

text \<open>\<^verbatim>\<open>NonogramBoard.solve\<close>: the solutions stored are those the callback collected.\<close>

definition solve :: "NonogramBoard \<Rightarrow> error + NonogramBoard" where
  "solve b =
     bindE (compile b) (\<lambda>(m, cp_cell, cp_region).
       let printer = new_CpSolutionPrinter (concat cp_cell) cp_region;
           printer' = SearchForAllSolutions m printer
       in Inr (b\<lparr>solutions := printer_solutions printer'\<rparr>))"

section \<open>Rendering\<close>

text \<open>Python's \<^verbatim>\<open>str\<close> of an integer, and the string helpers the format strings use.\<close>

definition digit :: "nat \<Rightarrow> char" where
  "digit d = ''0123456789'' ! d"

function str_nat :: "nat \<Rightarrow> string" where
  "str_nat n = (if n < 10 then [digit n] else str_nat (n div 10) @ [digit (n mod 10)])"
  by pat_completeness auto
termination
  by (relation "measure id") auto

declare str_nat.simps [simp del]

definition str_int :: "int \<Rightarrow> string" where
  "str_int i = (if i < 0 then CHR ''-'' # str_nat (nat (- i)) else str_nat (nat i))"

definition ljust :: "nat \<Rightarrow> string \<Rightarrow> string" where
  "ljust w s = s @ replicate (w - length s) CHR '' ''"

definition rjust :: "nat \<Rightarrow> string \<Rightarrow> string" where
  "rjust w s = replicate (w - length s) CHR '' '' @ s"

fun join :: "string \<Rightarrow> string list \<Rightarrow> string" where
  "join sep [] = []"
| "join sep [s] = s"
| "join sep (s # t # ts) = s @ sep @ join sep (t # ts)"

definition newline :: string where
  "newline = [CHR 0x0A]"

text \<open>\<^verbatim>\<open>max\<close> of a list raises \<^verbatim>\<open>ValueError\<close> when the list is empty.\<close>

definition maxE :: "('a::linorder) list \<Rightarrow> error + 'a" where
  "maxE xs = (case xs of [] \<Rightarrow> Inl ValueError | v # vs \<Rightarrow> Inr (fold max vs v))"

text \<open>
  A list comprehension with a filter and a body that may both raise: for each element
  the filter is evaluated first and the body only when the filter holds.
\<close>

fun filter_mapE :: "('a \<Rightarrow> error + bool) \<Rightarrow> ('a \<Rightarrow> error + 'b) \<Rightarrow> 'a list \<Rightarrow> error + 'b list" where
  "filter_mapE P f [] = Inr []"
| "filter_mapE P f (a # as) =
     bindE (P a) (\<lambda>keep.
       if keep then bindE (f a) (\<lambda>v. bindE (filter_mapE P f as) (\<lambda>rest. Inr (v # rest)))
       else filter_mapE P f as)"

text \<open>The two widths computed at the head of \<^verbatim>\<open>NonogramBoard.print\<close>.\<close>

definition left_space :: "NonogramBoard \<Rightarrow> error + nat" where
  "left_space b =
     bindE (maxE (map (\<lambda>r. length (constraint r)) (regions b))) (\<lambda>m. Inr (m * 2))"

definition table_space :: "NonogramBoard \<Rightarrow> error + nat" where
  "table_space b =
     bindE (filter_mapE is_column (\<lambda>r. maxE (constraint r)) (regions b)) (\<lambda>ms.
     bindE (maxE ms) (\<lambda>m. Inr (length (str_int m))))"

text \<open>
  One number of the column header: a region with fewer runs than the longest column
  constraint shows a blank (a string, padded on the right) on its first lines, a number
  (padded on the left) otherwise.
\<close>

definition header_cell :: "nat \<Rightarrow> nat \<Rightarrow> nat \<Rightarrow> Region \<Rightarrow> error + string" where
  "header_cell tspace max_constraint index r =
     bindE (if length (constraint r) < max_constraint then
              (if max_constraint - index \<le> length (constraint r) then
                 bindE (nthE (constraint r)
                          (nat \<bar>int max_constraint - int (length (constraint r)) - int index\<bar>))
                   (\<lambda>v. Inr (rjust tspace (str_int v)))
               else Inr (ljust tspace '' ''))
            else bindE (nthE (constraint r) index) (\<lambda>v. Inr (rjust tspace (str_int v))))
       (\<lambda>msg. Inr (msg @ '' ''))"

definition header_line :: "nat \<Rightarrow> nat \<Rightarrow> nat \<Rightarrow> Region list \<Rightarrow> nat \<Rightarrow> error + string" where
  "header_line lspace tspace max_constraint cols index =
     bindE (mapE (header_cell tspace max_constraint index) cols) (\<lambda>cells.
       Inr (ljust lspace [] @ '' | '' @ concat cells @ newline))"

definition glyph :: "Cell \<Rightarrow> string" where
  "glyph el = (if cell_value el then ''O'' else ''_'')"

text \<open>The loop over the rows: the state is the text so far and \<^verbatim>\<open>row_index\<close>.\<close>

definition print_row ::
    "nat \<Rightarrow> nat \<Rightarrow> Cell list list \<Rightarrow> Region \<Rightarrow> string \<times> nat \<Rightarrow> error + string \<times> nat" where
  "print_row lspace tspace data r s =
     bindE (is_row r) (\<lambda>row.
       if row then
         bindE (nthE data (snd s)) (\<lambda>cells.
           Inr (fst s @ rjust lspace (join '' '' (map str_int (constraint r))) @ '' | ''
                      @ join '' '' (map (\<lambda>el. rjust tspace (glyph el)) cells) @ newline,
                snd s + 1))
       else Inr s)"

definition print_board :: "NonogramBoard \<Rightarrow> Cell list list option \<Rightarrow> error + string" where
  "print_board b data_opt =
     (let data = (case data_opt of None \<Rightarrow> board b | Some d \<Rightarrow> d);
          result0 = (case data_opt of
                       None \<Rightarrow> '' *** Nonogram '' @ str_int (board_size b) @ ''x''
                                 @ str_int (board_size b) @ '' board ***'' @ newline @ newline
                     | Some d \<Rightarrow> [])
      in
      bindE (left_space b) (\<lambda>lspace.
      bindE (table_space b) (\<lambda>tspace.
      bindE (filter_mapE is_column (\<lambda>r. Inr (length (constraint r))) (regions b)) (\<lambda>lens.
      bindE (maxE lens) (\<lambda>max_constraint.
      bindE (filterE is_column (regions b)) (\<lambda>cols.
      bindE (mapE (header_line lspace tspace max_constraint cols) [0..<max_constraint]) (\<lambda>hdr.
        let result1 = result0 @ concat hdr
                      @ replicate (nat (int lspace + board_size b * (int tspace + 1) + 3)) CHR ''-''
                      @ newline
        in bindE (foldE (print_row lspace tspace data) (regions b) (result1, 0))
             (\<lambda>s. Inr (fst s)))))))))"

text \<open>
  \<^verbatim>\<open>NonogramBoard.print_solutions\<close>.  The grid of a solution is rebuilt from the names:
  only the name of a cell variable matches \<^verbatim>\<open>\d+-\d+\<close>, and the number before the dash
  is its row.  The list of solutions starts empty and is never \<^verbatim>\<open>None\<close>, so the test
  that would raise \<^verbatim>\<open>ValueError\<close> is never taken.
\<close>

definition solution_data :: "NonogramBoard \<Rightarrow> (IntVar \<times> int) list \<Rightarrow> Cell list list" where
  "solution_data b solution =
     map (\<lambda>i. map (\<lambda>cv. \<lparr>cell_value = (snd cv \<noteq> 0)\<rparr>)
                (filter (\<lambda>cv. case Name (fst cv) of CellName r c \<Rightarrow> r = i | _ \<Rightarrow> False)
                        solution))
         [0..<nat (board_size b)]"

definition print_solution :: "NonogramBoard \<Rightarrow> nat \<times> (IntVar \<times> int) list \<Rightarrow> string \<Rightarrow> error + string" where
  "print_solution b p result =
     bindE (print_board b (Some (solution_data b (snd p)))) (\<lambda>txt.
       Inr (result @ '' === Solution '' @ str_nat (fst p) @ '' ==='' @ newline @ newline @ txt))"

definition print_solutions :: "NonogramBoard \<Rightarrow> error + string" where
  "print_solutions b = foldE (print_solution b) (enumerate 1 (solutions b)) []"

section \<open>Notions used to state the properties\<close>

text \<open>
  The lines of an \<open>n \<times> n\<close> board in the order \<^verbatim>\<open>__init__\<close> creates its regions: at
  an even position \<open>2 i\<close> the line of fixed \<open>x = i\<close>, at the odd position \<open>2 i + 1\<close> the
  line of fixed \<open>y = i\<close>.  A board is well formed when its regions cover these lines;
  \<^verbatim>\<open>__init__\<close> builds such a board and \<^verbatim>\<open>constraint_of\<close> keeps it so.
\<close>

definition board_lines :: "nat \<Rightarrow> Coordinates list list" where
  "board_lines n =
     map (\<lambda>k. if even k then row_line n (k div 2) else column_line n (k div 2)) [0..<2 * n]"

definition wf_board :: "NonogramBoard \<Rightarrow> bool" where
  "wf_board b = (map region (regions b) = board_lines (nat (board_size b)))"

text \<open>The fit invariant of the specification: the runs and the gaps between them fit.\<close>

definition fits :: "int \<Rightarrow> int list \<Rightarrow> bool" where
  "fits n cs = (sum_list cs + (int (length cs) - 1) \<le> n)"

text \<open>
  The run sequence of a line: the lengths of its maximal blocks of filled cells, from
  the first cell to the last.  The second argument is the length of the block being read.
\<close>

fun run_lengths :: "bool list \<Rightarrow> nat \<Rightarrow> nat list" where
  "run_lengths [] n = (if n = 0 then [] else [n])"
| "run_lengths (True # xs) n = run_lengths xs (Suc n)"
| "run_lengths (False # xs) n = (if n = 0 then run_lengths xs 0 else n # run_lengths xs 0)"

definition runs :: "bool list \<Rightarrow> int list" where
  "runs xs = map int (run_lengths xs 0)"

text \<open>The cells of a grid along a region, in the order of the region's coordinates.\<close>

definition line_of :: "Cell list list \<Rightarrow> Region \<Rightarrow> bool list" where
  "line_of grid r = map (\<lambda>p. cell_value (grid ! coord_x p ! coord_y p)) (region r)"

text \<open>
  The position in \<^verbatim>\<open>self.regions\<close> of \<^verbatim>\<open>selected[ 0 ]\<close>, the first region that passes
  the filter of \<^verbatim>\<open>constraint_of\<close>, on a well-formed board with the index in range.  On a
  board of side two or more this is the region built for that row or column.  On a board
  of side one both regions pass both filters, because \<^verbatim>\<open>is_row\<close> and \<^verbatim>\<open>is_column\<close>
  both hold of a line of one cell: the position is \<open>0\<close> for either direction, so a call
  for the column writes the region built as row 0 and the region at position \<open>1\<close> is
  never written.
\<close>

definition selected_position :: "NonogramBoard \<Rightarrow> string \<Rightarrow> int \<Rightarrow> nat" where
  "selected_position b direction index =
     (if board_size b = 1 then 0
      else if direction = ''row'' then 2 * nat index else 2 * nat index + 1)"

text \<open>
  A model extends another when it keeps its variables and constraints and adds more; an
  assignment that meets a model meets every model it extends.  \<open>meets\<close> is \<open>satisfies\<close>
  without the bound on the length of the assignment.
\<close>

definition ext :: "CpModel \<Rightarrow> CpModel \<Rightarrow> bool" where
  "ext m m' = (\<exists>vs cs. variables m' = variables m @ vs \<and> constraints m' = constraints m @ cs)"

definition meets :: "CpModel \<Rightarrow> int list \<Rightarrow> bool" where
  "meets m a =
     ((\<forall>k<length (variables m). k < length a \<and> fst (variables m ! k) \<le> a ! k
                                   \<and> a ! k \<le> snd (variables m ! k))
      \<and> (\<forall>c\<in>set (constraints m). holds a c))"

text \<open>
  The line that runs \<open>rs\<close> draw when each run is followed by the gap of \<open>gs\<close> at the
  same position.
\<close>

fun blocks :: "nat list \<Rightarrow> nat list \<Rightarrow> bool list" where
  "blocks (r # rs) (g # gs) = replicate r True @ replicate g False @ blocks rs gs"
| "blocks _ _ = []"

text \<open>The gap variable that one step of the loop over the runs creates.\<close>

definition gap_var :: "nat \<Rightarrow> region_type \<Rightarrow> nat \<Rightarrow> int \<Rightarrow> seq_state \<Rightarrow> IntVar" where
  "gap_var ri rt k r st =
     \<lparr>Index = length (variables (st_model st)) + nat r, Name = SpaceName ri rt k\<rparr>"

text \<open>The cell variables that \<^verbatim>\<open>solve\<close> creates for a board of side \<open>n\<close>.\<close>

definition cell_var :: "nat \<Rightarrow> nat \<Rightarrow> nat \<Rightarrow> IntVar" where
  "cell_var n r c = \<lparr>Index = r * n + c, Name = CellName r c\<rparr>"

definition cell_vars :: "nat \<Rightarrow> IntVar list list" where
  "cell_vars n = map (\<lambda>r. map (cell_var n r) [0..<n]) [0..<n]"

definition is_cell_name :: "var_name \<Rightarrow> bool" where
  "is_cell_name nm = (case nm of CellName r c \<Rightarrow> True | _ \<Rightarrow> False)"

text \<open>The leading gap variable of a region and the state in which its run loop starts.\<close>

definition lead_gap :: "nat \<Rightarrow> region_type \<Rightarrow> CpModel \<Rightarrow> IntVar" where
  "lead_gap ri rt m = \<lparr>Index = length (variables m), Name = SpaceName ri rt 0\<rparr>"

definition run_init :: "int \<Rightarrow> nat \<Rightarrow> region_type \<Rightarrow> int list \<Rightarrow> CpModel \<Rightarrow> seq_state" where
  "run_init sz ri rt cs m1 =
     \<lparr>st_model = m1\<lparr>variables := variables m1 @ [(0, sz - sum_list cs)]\<rparr>,
      space_variables = [lead_gap ri rt m1], seq_variables = [], seq_element = 0, seq_cum = 0\<rparr>"

text \<open>
  The cell variables along a region, the model after the cells are created, and the test
  that \<^verbatim>\<open>print_solutions\<close> applies to a variable's name to keep the cells of row \<open>i\<close>.
\<close>

definition region_vars :: "nat \<Rightarrow> Coordinates list \<Rightarrow> IntVar list" where
  "region_vars n ps = map (\<lambda>p. cell_var n (coord_x p) (coord_y p)) ps"

definition cells_model :: "nat \<Rightarrow> CpModel" where
  "cells_model n = \<lparr>variables = replicate (n * n) (0, 1), constraints = []\<rparr>"

definition row_of :: "nat \<Rightarrow> var_name \<Rightarrow> bool" where
  "row_of i nm = (case nm of CellName r c \<Rightarrow> r = i | _ \<Rightarrow> False)"

text \<open>
  A region is compiled as expected when the head of the loop body finds its cell
  variables and hands them to \<open>region_model\<close>.
\<close>

definition good_region :: "int \<Rightarrow> nat \<Rightarrow> Region \<Rightarrow> bool" where
  "good_region sz n r =
     (length (region r) = n \<and>
      (\<exists>ri rt. \<forall>s. region_step sz (cell_vars n) r s =
         Inr (region_model sz ri rt (region_vars n (region r)) (constraint r) s)))"

text \<open>
  Boards of side two: built by four calls of \<^verbatim>\<open>constraint_of\<close> on a new board, and the
  board these calls produce, written out.
\<close>

definition board_2x2 :: "int list \<Rightarrow> int list \<Rightarrow> int list \<Rightarrow> int list \<Rightarrow> error + NonogramBoard" where
  "board_2x2 r0 r1 c0 c1 =
     bindE (constraint_of ''row'' 0 r0 (NonogramBoard_init 2)) (\<lambda>b.
     bindE (constraint_of ''row'' 1 r1 b) (\<lambda>b.
     bindE (constraint_of ''column'' 0 c0 b) (constraint_of ''column'' 1 c1)))"

definition grid_2x2 :: "int list \<Rightarrow> int list \<Rightarrow> int list \<Rightarrow> int list \<Rightarrow> NonogramBoard" where
  "grid_2x2 r0 r1 c0 c1 =
     \<lparr>board_size = 2, board = replicate 2 (replicate 2 new_Cell),
      regions = [\<lparr>region = row_line 2 0, constraint = r0\<rparr>,
                 \<lparr>region = column_line 2 0, constraint = c0\<rparr>,
                 \<lparr>region = row_line 2 1, constraint = r1\<rparr>,
                 \<lparr>region = column_line 2 1, constraint = c1\<rparr>],
      solutions = []\<rparr>"

text \<open>
  The domain a model gives a variable, the element variable that one step of the inner
  loop creates, and the gap and element variables of one region.
\<close>

definition has_domain :: "CpModel \<Rightarrow> IntVar \<Rightarrow> int \<times> int \<Rightarrow> bool" where
  "has_domain m v d = (Index v < length (variables m) \<and> variables m ! Index v = d)"

definition el_var :: "nat \<Rightarrow> region_type \<Rightarrow> seq_state \<Rightarrow> nat \<Rightarrow> IntVar" where
  "el_var ri rt st t =
     \<lparr>Index = length (variables (st_model st)) + t, Name = ElName ri rt (seq_element st + t)\<rparr>"

definition region_gaps ::
    "int \<Rightarrow> nat \<Rightarrow> region_type \<Rightarrow> IntVar list \<Rightarrow> int list \<Rightarrow> CpModel \<times> IntVar list \<Rightarrow> IntVar list" where
  "region_gaps sz ri rt rvars cs s =
     space_variables (run_loop sz ri rt cs (Add (SumEq rvars (sum_list cs)) (fst s)))"

definition region_elements ::
    "int \<Rightarrow> nat \<Rightarrow> region_type \<Rightarrow> IntVar list \<Rightarrow> int list \<Rightarrow> CpModel \<times> IntVar list \<Rightarrow> IntVar list" where
  "region_elements sz ri rt rvars cs s =
     seq_variables (run_loop sz ri rt cs (Add (SumEq rvars (sum_list cs)) (fst s)))"

text \<open>
  What the model holds for one region with cell variables \<open>rvars\<close>, runs \<open>cs\<close>, gap
  variables \<open>gs\<close> and element variables \<open>ps\<close>: the domains and names of the gaps, the
  sum of the gaps, the sum of the cells, and for the element at offset \<open>t\<close> of run \<open>i\<close>
  its domain, its position equation and its link to the cells.
\<close>

definition region_compiled ::
    "CpModel \<Rightarrow> int \<Rightarrow> nat \<Rightarrow> region_type \<Rightarrow> IntVar list \<Rightarrow> int list \<Rightarrow> IntVar list \<Rightarrow> IntVar list
      \<Rightarrow> bool" where
  "region_compiled m sz ri rt rvars cs gs ps =
     (length gs = length cs + 1 \<and> length ps = sum_list (map nat cs)
      \<and> (\<forall>i<length gs.
            has_domain m (gs ! i)
              (if i = 0 then (0, sz - sum_list cs)
               else (if i = length cs then 0 else 1, max 1 (sz - sum_list cs)))
          \<and> Name (gs ! i) = SpaceName ri rt i)
      \<and> SumEq gs (sz - sum_list cs) \<in> set (constraints m)
      \<and> SumEq rvars (sum_list cs) \<in> set (constraints m)
      \<and> (\<forall>i<length cs. \<forall>t<nat (cs ! i).
            has_domain m (ps ! (sum_list (map nat (take i cs)) + t)) (0, sz)
          \<and> VarEq (ps ! (sum_list (map nat (take i cs)) + t)) (take (Suc i) gs)
               (sum_list (take i cs) + int t) \<in> set (constraints m)
          \<and> Element (ps ! (sum_list (map nat (take i cs)) + t)) rvars 1 \<in> set (constraints m)))"

text \<open>The board of side three after \<^verbatim>\<open>constraint_of( "row", 0, [ 1, 1 ] )\<close>.\<close>

definition board_3x3_row0 :: NonogramBoard where
  "board_3x3_row0 =
     (NonogramBoard_init 3)\<lparr>regions :=
        (regions (NonogramBoard_init 3))[0 := (regions (NonogramBoard_init 3) ! 0)\<lparr>constraint := [1, 1]\<rparr>]\<rparr>"

text \<open>
  A board of side ten: row 0 asks for one run of ten, the other rows are empty, and
  every column asks for one run of one.
\<close>

definition board_10 :: NonogramBoard where
  "board_10 =
     (NonogramBoard_init 10)\<lparr>regions :=
        map (\<lambda>k. if even k
                  then \<lparr>region = row_line 10 (k div 2), constraint = (if k = 0 then [10] else [])\<rparr>
                  else \<lparr>region = column_line 10 (k div 2), constraint = [1]\<rparr>) [0..<20]\<rparr>"

section \<open>Boards: construction and constraint assignment\<close>

lemma fold_snoc2:
  "fold (\<lambda>i rs. rs @ [f i, g i]) [0..<m] [] =
     map (\<lambda>k. if even k then f (k div 2) else g (k div 2)) [0..<2 * m]"
proof (induction m)
  case 0 show ?case by simp
next
  case (Suc m)
  have "[0..<2 * Suc m] = [0..<2 * m] @ [2 * m, Suc (2 * m)]" by simp
  then show ?case using Suc by simp
qed

lemma regions_init:
  "regions (NonogramBoard_init sz) = map new_Region (board_lines (nat sz))"
  unfolding NonogramBoard_init_def board_lines_def
  by (simp add: fold_snoc2 comp_def if_distrib[of new_Region])

lemma wf_init: "wf_board (NonogramBoard_init sz)"
proof -
  have "board_size (NonogramBoard_init sz) = sz" by (simp add: NonogramBoard_init_def)
  moreover have "map region (map new_Region ls) = ls" for ls
    by (induction ls) (simp_all add: new_Region_def)
  ultimately show ?thesis by (simp add: wf_board_def regions_init)
qed

lemma wf_length: "wf_board b \<Longrightarrow> length (regions b) = 2 * nat (board_size b)"
  unfolding wf_board_def board_lines_def by (drule arg_cong[where f=length]) simp

lemma wf_region_nth:
  assumes "wf_board b" "k < 2 * nat (board_size b)"
  shows "region (regions b ! k) =
           (if even k then row_line (nat (board_size b)) (k div 2)
            else column_line (nat (board_size b)) (k div 2))"
proof -
  have "region (regions b ! k) = map region (regions b) ! k"
    using assms wf_length by simp
  also have "\<dots> = board_lines (nat (board_size b)) ! k" using assms by (simp add: wf_board_def)
  finally show ?thesis using assms(2) by (simp add: board_lines_def)
qed

lemma count_list_upt: "count_list [0..<n] (i::nat) = (if i < n then 1 else 0)"
  by (induction n) auto

lemma count_list_map_const: "count_list (map (\<lambda>j. c) xs) c = length xs"
  by (induction xs) auto

lemma length_row_line [simp]: "length (row_line n i) = n"
  by (simp add: row_line_def)

lemma length_column_line [simp]: "length (column_line n i) = n"
  by (simp add: column_line_def)

lemma hd_row_line: "0 < n \<Longrightarrow> hd (row_line n i) = \<lparr>coord_x = i, coord_y = 0\<rparr>"
  by (simp add: row_line_def hd_map)

lemma hd_column_line: "0 < n \<Longrightarrow> hd (column_line n i) = \<lparr>coord_x = 0, coord_y = i\<rparr>"
  by (simp add: column_line_def hd_map)

lemma row_line_Nil [simp]: "row_line n i = [] \<longleftrightarrow> n = 0"
  by (simp add: row_line_def)

lemma column_line_Nil [simp]: "column_line n i = [] \<longleftrightarrow> n = 0"
  by (simp add: column_line_def)

lemma map_x_row_line: "map coord_x (row_line n i) = map (\<lambda>j. i) [0..<n]"
  by (simp add: row_line_def)

lemma map_y_row_line: "map coord_y (row_line n i) = [0..<n]"
  by (simp add: row_line_def map_idI)

lemma map_x_column_line: "map coord_x (column_line n i) = [0..<n]"
  by (simp add: column_line_def map_idI)

lemma map_y_column_line: "map coord_y (column_line n i) = map (\<lambda>j. i) [0..<n]"
  by (simp add: column_line_def)

lemma is_row_row_line: "0 < n \<Longrightarrow> region r = row_line n i \<Longrightarrow> is_row r = Inr True"
  by (simp add: is_row_def list.case_eq_if map_x_row_line count_list_map_const hd_row_line)

lemma is_row_column_line: "0 < n \<Longrightarrow> region r = column_line n i \<Longrightarrow> is_row r = Inr (n = 1)"
  by (auto simp add: is_row_def list.case_eq_if map_x_column_line count_list_upt hd_column_line)

lemma is_column_column_line: "0 < n \<Longrightarrow> region r = column_line n i \<Longrightarrow> is_column r = Inr True"
  by (simp add: is_column_def list.case_eq_if map_y_column_line count_list_map_const hd_column_line)

lemma is_column_row_line: "0 < n \<Longrightarrow> region r = row_line n i \<Longrightarrow> is_column r = Inr (n = 1)"
  by (auto simp add: is_column_def list.case_eq_if map_y_row_line count_list_upt hd_row_line)

lemma filterE_total:
  "(\<And>x. x \<in> set xs \<Longrightarrow> P x = Inr (Q x)) \<Longrightarrow> filterE P xs = Inr (filter Q xs)"
  by (induction xs) (simp_all add: bindE_def)

lemma filter_eq_upt: "filter (\<lambda>k. k = a) [0..<m] = (if a < m then [a] else [])"
  by (induction m) auto

lemma row_selected_wf:
  assumes "wf_board b" "k < 2 * nat (board_size b)"
  shows "row_selected index (regions b ! k) =
           Inr (if nat (board_size b) = 1 then index = 0
                else even k \<and> int (k div 2) = index)"
proof -
  let ?n = "nat (board_size b)"
  have n: "0 < ?n" using assms(2) by simp
  show ?thesis
  proof (cases "even k")
    case True
    then have r: "region (regions b ! k) = row_line ?n (k div 2)"
      using wf_region_nth[OF assms] by simp
    show ?thesis using True n assms(2)
      by (auto simp add: row_selected_def is_row_row_line[OF n r] bindE_def r list.case_eq_if hd_row_line)
  next
    case False
    then have r: "region (regions b ! k) = column_line ?n (k div 2)"
      using wf_region_nth[OF assms] by simp
    show ?thesis using False n
      by (auto simp add: row_selected_def is_row_column_line[OF n r] bindE_def r list.case_eq_if hd_column_line)
  qed
qed

lemma column_selected_wf:
  assumes "wf_board b" "k < 2 * nat (board_size b)"
  shows "column_selected index (regions b ! k) =
           Inr (if nat (board_size b) = 1 then index = 0
                else odd k \<and> int (k div 2) = index)"
proof -
  let ?n = "nat (board_size b)"
  have n: "0 < ?n" using assms(2) by simp
  show ?thesis
  proof (cases "even k")
    case True
    then have r: "region (regions b ! k) = row_line ?n (k div 2)"
      using wf_region_nth[OF assms] by simp
    show ?thesis using True n
      by (auto simp add: column_selected_def is_column_row_line[OF n r] bindE_def r list.case_eq_if hd_row_line)
  next
    case False
    then have r: "region (regions b ! k) = column_line ?n (k div 2)"
      using wf_region_nth[OF assms] by simp
    show ?thesis using False n assms(2)
      by (auto simp add: column_selected_def is_column_column_line[OF n r] bindE_def r list.case_eq_if hd_column_line)
  qed
qed

lemma hd_filter_upt:
  assumes "a < m" "Q a" "\<And>k. k < a \<Longrightarrow> \<not> Q k"
  shows "\<exists>rest. filter Q [0..<m] = a # rest"
proof -
  have "[0..<m] = [0..<a] @ [a..<m]"
    using assms(1) upt_add_eq_append[of 0 a "m - a"] by simp
  moreover have "[a..<m] = a # [Suc a..<m]"
    using assms(1) by (simp add: upt_conv_Cons)
  moreover have "filter Q [0..<a] = []" using assms(3) by (simp add: filter_empty_conv)
  ultimately show ?thesis using assms(2) by simp
qed

lemma constraint_of_wf:
  assumes "wf_board b" "0 \<le> index" "index < board_size b"
  shows "constraint_of direction index cs b =
           Inr (b\<lparr>regions := (regions b)[selected_position b direction index :=
                                 (regions b ! selected_position b direction index)\<lparr>constraint := cs\<rparr>]\<rparr>)"
proof -
  let ?n = "nat (board_size b)"
  let ?P = "\<lambda>k. (if direction = ''row'' then row_selected index
                               else column_selected index) (regions b ! k)"
  let ?Q = "\<lambda>k. if ?n = 1 then index = 0
                 else if direction = ''row'' then even k \<and> int (k div 2) = index
                 else odd k \<and> int (k div 2) = index"
  let ?t = "selected_position b direction index"
  have len: "length (regions b) = 2 * ?n" by (rule wf_length[OF assms(1)])
  have fe: "filterE ?P [0..<length (regions b)] = Inr (filter ?Q [0..<length (regions b)])"
    by (rule filterE_total) (simp add: len row_selected_wf[OF assms(1)] column_selected_wf[OF assms(1)])
  have "\<exists>rest. filter ?Q [0..<length (regions b)] = ?t # rest"
  proof (rule hd_filter_upt)
    show "?t < length (regions b)" using assms(2,3) by (auto simp: len selected_position_def)
    show "?Q ?t" using assms(2,3) by (auto simp: selected_position_def)
    show "\<not> ?Q k" if "k < ?t" for k using that assms(2,3)
      by (auto simp: selected_position_def split: if_splits)
  qed
  then obtain rest where "filterE ?P [0..<length (regions b)] = Inr (?t # rest)"
    using fe by auto
  then show ?thesis
    unfolding constraint_of_def using assms(2,3) by (simp add: bindE_def)
qed

lemma constraint_of_range:
  "\<not> (0 \<le> index \<and> index < board_size b) \<Longrightarrow> constraint_of direction index cs b = Inl IndexError"
  by (simp add: constraint_of_def)

lemma wf_constraint_of:
  assumes "wf_board b" "constraint_of direction index cs b = Inr b'"
  shows "wf_board b'"
proof -
  have r: "0 \<le> index" "index < board_size b"
    using assms(2) by (auto simp: constraint_of_def split: if_splits)
  have "map region (xs[k := (xs ! k)\<lparr>constraint := cs\<rparr>]) = map region xs" for xs :: "Region list" and k
    by (simp add: map_update list_update_same_conv) (metis list_update_id map_update)
  then show ?thesis using assms constraint_of_wf[OF assms(1) r, of direction cs]
    by (auto simp: wf_board_def)
qed

section \<open>The model of one region\<close>

lemma ext_refl [simp]: "ext m m" by (simp add: ext_def)

lemma ext_trans: "ext m1 m2 \<Longrightarrow> ext m2 m3 \<Longrightarrow> ext m1 m3"
  by (auto simp: ext_def)

lemma ext_meets: "ext m m' \<Longrightarrow> meets m' a \<Longrightarrow> meets m a"
  by (auto simp: ext_def meets_def nth_append split: if_splits) 

lemma satisfies_meets: "satisfies m a \<Longrightarrow> meets m a"
  by (auto simp: satisfies_def meets_def in_domains_def list_all2_conv_all_nth list_all_iff)

lemma ext_Add [simp]: "ext m (Add c m)" by (simp add: ext_def Add_def)

lemma ext_NewIntVar [simp]: "ext m (snd (NewIntVar lb ub nm m))"
  by (simp add: ext_def NewIntVar_def)

lemma fold_upt_Suc: "fold f [0..<Suc n] s = f n (fold f [0..<n] s)"
  by simp

lemma el_loop_eq:
  "fold (el_step sz ri rt) [0..<n] st =
     st\<lparr>st_model := \<lparr>variables = variables (st_model st) @ replicate n (0, sz),
                     constraints = constraints (st_model st) @
                       map (\<lambda>t. VarEq \<lparr>Index = length (variables (st_model st)) + t,
                                       Name = ElName ri rt (seq_element st + t)\<rparr>
                                     (space_variables st) (seq_cum st + int t)) [0..<n]\<rparr>,
        seq_variables := seq_variables st @
                       map (\<lambda>t. \<lparr>Index = length (variables (st_model st)) + t,
                                 Name = ElName ri rt (seq_element st + t)\<rparr>) [0..<n],
        seq_element := seq_element st + n\<rparr>"
proof (induction n)
  case 0
  show ?case by simp
next
  case (Suc n)
  show ?case
    by (simp only: fold_upt_Suc Suc)
       (simp add: el_step_def NewIntVar_def Add_def replicate_append_same)
qed

lemma seq_step_eq:
  "seq_step sz ri rt smax len (k, r) st =
     st\<lparr>st_model := \<lparr>variables = variables (st_model st) @ replicate (nat r) (0, sz)
                                   @ [(if k = len then 0 else 1, max 1 smax)],
                     constraints = constraints (st_model st) @
                       map (\<lambda>t. VarEq \<lparr>Index = length (variables (st_model st)) + t,
                                       Name = ElName ri rt (seq_element st + t)\<rparr>
                                     (space_variables st) (seq_cum st + int t)) [0..<nat r]\<rparr>,
        space_variables := space_variables st @
                       [\<lparr>Index = length (variables (st_model st)) + nat r,
                         Name = SpaceName ri rt k\<rparr>],
        seq_variables := seq_variables st @
                       map (\<lambda>t. \<lparr>Index = length (variables (st_model st)) + t,
                                 Name = ElName ri rt (seq_element st + t)\<rparr>) [0..<nat r],
        seq_element := seq_element st + nat r,
        seq_cum := seq_cum st + r\<rparr>"
  by (simp add: seq_step_def el_loop_eq NewIntVar_def)

lemma seq_step_space:
  "space_variables (seq_step sz ri rt smax len (k, r) st) = space_variables st @ [gap_var ri rt k r st]"
  by (simp add: seq_step_eq gap_var_def)

lemma seq_step_cum: "seq_cum (seq_step sz ri rt smax len (k, r) st) = seq_cum st + r"
  by (simp add: seq_step_eq)

lemma seq_step_ext: "ext (st_model st) (st_model (seq_step sz ri rt smax len p st))"
  by (cases p) (simp add: seq_step_eq ext_def)

lemma seq_step_seq_mono:
  "set (seq_variables st) \<subseteq> set (seq_variables (seq_step sz ri rt smax len p st))"
  by (cases p) (simp add: seq_step_eq)

lemma meets_dom:
  "meets m a \<Longrightarrow> k < length (variables m) \<Longrightarrow> fst (variables m ! k) \<le> a ! k \<and> a ! k \<le> snd (variables m ! k)"
  by (simp add: meets_def)

lemma meets_holds: "meets m a \<Longrightarrow> c \<in> set (constraints m) \<Longrightarrow> holds a c"
  by (simp add: meets_def)

lemma seq_step_gap_dom:
  assumes "meets (st_model (seq_step sz ri rt smax len (k, r) st)) a"
  shows "(if k = len then 0 else 1) \<le> Value a (gap_var ri rt k r st)
         \<and> Value a (gap_var ri rt k r st) \<le> max 1 smax"
proof -
  define M where "M = st_model (seq_step sz ri rt smax len (k, r) st)"
  let ?i = "length (variables (st_model st)) + nat r"
  have len: "?i < length (variables M)" by (simp add: M_def seq_step_eq)
  have val: "variables M ! ?i = (if k = len then 0 else 1, max 1 smax)"
    by (simp add: M_def seq_step_eq nth_append)
  have "fst (variables M ! ?i) \<le> a ! ?i \<and> a ! ?i \<le> snd (variables M ! ?i)"
    using assms len unfolding M_def[symmetric] by (rule meets_dom)
  then show ?thesis unfolding val by (simp add: Value_def gap_var_def)
qed

lemma seq_step_el:
  assumes "meets (st_model (seq_step sz ri rt smax len (k, r) st)) a" "t < nat r"
  shows "\<exists>p\<in>set (seq_variables (seq_step sz ri rt smax len (k, r) st)).
           Value a p = sum_list (map (Value a) (space_variables st)) + seq_cum st + int t"
proof -
  let ?p = "\<lparr>Index = length (variables (st_model st)) + t,
             Name = ElName ri rt (seq_element st + t)\<rparr>"
  have "VarEq ?p (space_variables st) (seq_cum st + int t)
          \<in> set (constraints (st_model (seq_step sz ri rt smax len (k, r) st)))"
    using assms(2) by (simp add: seq_step_eq)
  then have "holds a (VarEq ?p (space_variables st) (seq_cum st + int t))"
    using assms(1) meets_holds by blast
  moreover have "?p \<in> set (seq_variables (seq_step sz ri rt smax len (k, r) st))"
    using assms(2) by (simp add: seq_step_eq)
  ultimately show ?thesis by (intro bexI[of _ ?p]) simp_all
qed

lemma seq_loop_ext:
  "ext (st_model st) (st_model (fold (seq_step sz ri rt smax len) ps st))"
proof (induction ps arbitrary: st)
  case Nil show ?case by simp
next
  case (Cons p ps)
  show ?case using ext_trans[OF seq_step_ext Cons] by simp
qed

lemma seq_loop_seq_mono:
  "set (seq_variables st) \<subseteq> set (seq_variables (fold (seq_step sz ri rt smax len) ps st))"
proof (induction ps arbitrary: st)
  case Nil show ?case by simp
next
  case (Cons p ps)
  show ?case using seq_step_seq_mono Cons by simp blast
qed

lemma seq_loop_sem:
  assumes "k + length cs = Suc len" "\<forall>r\<in>set cs. 0 < r"
    and "meets (st_model (fold (seq_step sz ri rt smax len) (enumerate k cs) st)) a"
  shows "\<exists>gs. space_variables (fold (seq_step sz ri rt smax len) (enumerate k cs) st)
               = space_variables st @ gs
            \<and> length gs = length cs
            \<and> (\<forall>g\<in>set gs. 0 \<le> Value a g)
            \<and> (\<forall>g\<in>set (butlast gs). 1 \<le> Value a g)
            \<and> (\<forall>t<length (blocks (map nat cs) (map (\<lambda>g. nat (Value a g)) gs)).
                  blocks (map nat cs) (map (\<lambda>g. nat (Value a g)) gs) ! t \<longrightarrow>
                  (\<exists>p\<in>set (seq_variables (fold (seq_step sz ri rt smax len) (enumerate k cs) st)).
                     Value a p = sum_list (map (Value a) (space_variables st)) + seq_cum st + int t))"
  using assms
proof (induction cs arbitrary: k st)
  case Nil
  show ?case by simp
next
  case (Cons r cs)
  define S1 where "S1 = seq_step sz ri rt smax len (k, r) st"
  define F where "F = fold (seq_step sz ri rt smax len) (enumerate (Suc k) cs) S1"
  define g where "g = gap_var ri rt k r st"
  have F_eq: "fold (seq_step sz ri rt smax len) (enumerate k (r # cs)) st = F"
    by (simp add: F_def S1_def)
  have mF: "meets (st_model F) a" using Cons.prems(3) unfolding F_eq .
  have mS1: "meets (st_model S1) a"
    using ext_meets[OF seq_loop_ext mF[unfolded F_def]] .
  have rpos: "0 < r" and cspos: "\<forall>r\<in>set cs. 0 < r" using Cons.prems(2) by simp_all
  have klen: "Suc k + length cs = Suc len" using Cons.prems(1) by simp
  from Cons.IH[OF klen cspos mF[unfolded F_def]] obtain gs where
    sp: "space_variables F = space_variables S1 @ gs"
    and lg: "length gs = length cs"
    and nonneg: "\<forall>g\<in>set gs. 0 \<le> Value a g"
    and pos: "\<forall>g\<in>set (butlast gs). 1 \<le> Value a g"
    and bl: "\<forall>t<length (blocks (map nat cs) (map (\<lambda>g. nat (Value a g)) gs)).
                  blocks (map nat cs) (map (\<lambda>g. nat (Value a g)) gs) ! t \<longrightarrow>
                  (\<exists>p\<in>set (seq_variables F).
                     Value a p = sum_list (map (Value a) (space_variables S1)) + seq_cum S1 + int t)"
    unfolding F_def[symmetric] by blast
  have spS1: "space_variables S1 = space_variables st @ [g]"
    by (simp add: S1_def g_def seq_step_space)
  have cumS1: "seq_cum S1 = seq_cum st + r" by (simp add: S1_def seq_step_cum)
  have gdom: "(if k = len then 0 else 1) \<le> Value a g"
    using seq_step_gap_dom[OF mS1[unfolded S1_def]] by (simp add: g_def)
  have g0: "0 \<le> Value a g" using gdom by (simp split: if_splits)
  have g1: "1 \<le> Value a g" if "cs \<noteq> []"
  proof -
    have "k \<noteq> len" using klen that by (cases cs) auto
    then show ?thesis using gdom by simp
  qed
  let ?B = "sum_list (map (Value a) (space_variables st)) + seq_cum st"
  let ?bl' = "blocks (map nat cs) (map (\<lambda>g. nat (Value a g)) gs)"
  let ?bl = "blocks (map nat (r # cs)) (map (\<lambda>g. nat (Value a g)) (g # gs))"
  have bl_eq: "?bl = replicate (nat r) True @ replicate (nat (Value a g)) False @ ?bl'"
    by simp
  have cover: "\<exists>p\<in>set (seq_variables F). Value a p = ?B + int t"
    if t: "t < length ?bl" and on: "?bl ! t" for t
  proof -
    consider "t < nat r" | "nat r \<le> t" "t < nat r + nat (Value a g)"
      | "nat r + nat (Value a g) \<le> t" by linarith
    then show ?thesis
    proof cases
      case 1
      from seq_step_el[OF mS1[unfolded S1_def] 1] obtain p where
        "p \<in> set (seq_variables S1)" "Value a p = ?B + int t"
        unfolding S1_def by blast
      moreover have "set (seq_variables S1) \<subseteq> set (seq_variables F)"
        unfolding F_def by (rule seq_loop_seq_mono)
      ultimately show ?thesis by blast
    next
      case 2
      have a1: "\<not> t < nat r" and a2: "t - nat r < nat (Value a g)" using 2 by linarith+
      have "?bl ! t = (replicate (nat (Value a g)) False @ ?bl') ! (t - nat r)"
        unfolding bl_eq using a1 by (simp add: nth_append)
      also have "\<dots> = False" using a2 by (simp add: nth_append)
      finally show ?thesis using on by simp
    next
      case 3
      define t' where "t' = t - nat r - nat (Value a g)"
      have tt: "t = nat r + nat (Value a g) + t'" using 3 by (simp add: t'_def)
      have "?bl ! t = ?bl' ! t'" unfolding bl_eq tt by (simp add: nth_append)
      moreover have "t' < length ?bl'" using t unfolding bl_eq tt by simp
      ultimately obtain p where p: "p \<in> set (seq_variables F)"
        "Value a p = sum_list (map (Value a) (space_variables S1)) + seq_cum S1 + int t'"
        using bl on by blast
      have "Value a p = ?B + int t"
        using p(2) rpos g0 by (simp add: spS1 cumS1 tt)
      with p(1) show ?thesis by blast
    qed
  qed
  show ?case unfolding F_eq
  proof (intro exI[of _ "g # gs"] conjI)
    show "space_variables F = space_variables st @ g # gs" by (simp add: sp spS1)
    show "length (g # gs) = length (r # cs)" by (simp add: lg)
    show "\<forall>g\<in>set (g # gs). 0 \<le> Value a g" using g0 nonneg by simp
    show "\<forall>g\<in>set (butlast (g # gs)). 1 \<le> Value a g"
    proof (cases "gs = []")
      case True then show ?thesis by simp
    next
      case False
      then have "cs \<noteq> []" using lg by auto
      then show ?thesis using pos g1 False by simp
    qed
    show "\<forall>t<length ?bl. ?bl ! t \<longrightarrow> (\<exists>p\<in>set (seq_variables F). Value a p = ?B + int t)"
      using cover by blast
  qed
qed

section \<open>Lines, blocks and runs\<close>

lemma count_True_le:
  "length xs = length ys \<Longrightarrow> \<forall>i<length xs. xs ! i \<longrightarrow> ys ! i
     \<Longrightarrow> count_list xs True \<le> count_list ys True"
proof (induction xs ys rule: list_induct2)
  case Nil show ?case by simp
next
  case (Cons x xs y ys)
  have tl: "\<forall>i<length xs. xs ! i \<longrightarrow> ys ! i" using Cons.prems by fastforce
  have hd: "x \<longrightarrow> y" using Cons.prems by fastforce
  show ?case using Cons.IH[OF tl] hd by auto
qed

lemma covered_eq:
  "length xs = length ys \<Longrightarrow> \<forall>i<length xs. xs ! i \<longrightarrow> ys ! i
     \<Longrightarrow> count_list xs True = count_list ys True \<Longrightarrow> xs = ys"
proof (induction xs ys rule: list_induct2)
  case Nil show ?case by simp
next
  case (Cons x xs y ys)
  have tl: "\<forall>i<length xs. xs ! i \<longrightarrow> ys ! i" using Cons.prems(1) by fastforce
  have hd: "x \<longrightarrow> y" using Cons.prems(1) by fastforce
  have le: "count_list xs True \<le> count_list ys True"
    by (rule count_True_le[OF Cons.hyps tl])
  have "x = y \<and> count_list xs True = count_list ys True"
    using Cons.prems(2) hd le by (auto split: if_splits)
  then show ?case using Cons.IH[OF tl] by simp
qed

lemma count_replicate_True [simp]: "count_list (replicate n True) True = n"
  by (induction n) auto

lemma count_replicate_False [simp]: "count_list (replicate n False) True = 0"
  by (induction n) auto

lemma count_blocks:
  "length gs = length rs \<Longrightarrow> count_list (blocks rs gs) True = sum_list rs"
  by (induction rs gs rule: blocks.induct) auto

lemma length_blocks:
  "length gs = length rs \<Longrightarrow> length (blocks rs gs) = sum_list rs + sum_list gs"
  by (induction rs gs rule: blocks.induct) auto

lemma run_lengths_True: "run_lengths (replicate r True @ xs) n = run_lengths xs (n + r)"
  by (induction r arbitrary: n) auto

lemma run_lengths_False0: "run_lengths (replicate g False @ xs) 0 = run_lengths xs 0"
  by (induction g) auto

lemma run_lengths_False:
  "0 < n \<Longrightarrow> 0 < g \<Longrightarrow> run_lengths (replicate g False @ xs) n = n # run_lengths xs 0"
  by (cases g) (auto simp: run_lengths_False0)

lemma run_lengths_False_end:
  "0 < n \<Longrightarrow> run_lengths (replicate g False) n = [n]"
  using run_lengths_False[of n g "[]"] by (cases g) auto

lemma run_lengths_blocks:
  "length gs = length rs \<Longrightarrow> \<forall>r\<in>set rs. 0 < r \<Longrightarrow> \<forall>g\<in>set (butlast gs). 0 < g
     \<Longrightarrow> run_lengths (blocks rs gs) 0 = rs"
proof (induction rs gs rule: blocks.induct)
  case (1 r rs g gs)
  have r: "0 < r" using "1.prems" by simp
  show ?case
  proof (cases "rs = []")
    case True
    then have "gs = []" using "1.prems"(1) by simp
    then show ?thesis using True r by (simp add: run_lengths_True run_lengths_False_end)
  next
    case False
    then have ne: "gs \<noteq> []" using "1.prems"(1) by auto
    then have g: "0 < g" and rest: "\<forall>g\<in>set (butlast gs). 0 < g" using "1.prems"(3) by simp_all
    have "run_lengths (blocks rs gs) 0 = rs"
      using "1.IH" "1.prems" rest by simp
    then show ?thesis using r g by (simp add: run_lengths_True run_lengths_False)
  qed
qed simp_all

lemma sum_bool_values:
  "\<forall>v\<in>set vs. f v = 0 \<or> f v = (1::int)
     \<Longrightarrow> sum_list (map f vs) = int (count_list (map (\<lambda>v. f v = 1) vs) True)"
  by (induction vs) auto

section \<open>Every assignment that meets a region's model draws its runs\<close>

lemma fold_AddElement:
  "fold (\<lambda>el_var m. AddElement el_var rvars t m) ps m =
     m\<lparr>constraints := constraints m @ map (\<lambda>p. Element p rvars t) ps\<rparr>"
  by (induction ps arbitrary: m) (simp_all add: AddElement_def Add_def)

lemma run_loop_eq:
  "run_loop sz ri rt cs m1 =
     fold (seq_step sz ri rt (sz - sum_list cs) (length cs)) (enumerate 1 cs) (run_init sz ri rt cs m1)"
  by (simp add: run_loop_def NewIntVar_def run_init_def lead_gap_def Let_def)

lemma sum_list_nat:
  "\<forall>x\<in>set xs. 0 \<le> x \<Longrightarrow> int (sum_list (map nat xs)) = sum_list xs"
  by (induction xs) auto

lemma region_model_sem:
  assumes m: "meets (fst (region_model sz ri rt rvars cs s)) a"
    and pos: "\<forall>c\<in>set cs. 0 < c"
    and bits: "\<forall>v\<in>set rvars. Value a v = 0 \<or> Value a v = 1"
    and len: "int (length rvars) = sz"
  shows "runs (map (\<lambda>v. Value a v = 1) rvars) = cs
       \<and> (\<forall>t<length rvars. Value a (rvars ! t) = 1 \<longleftrightarrow>
              (\<exists>p\<in>set (seq_variables (run_loop sz ri rt cs (Add (SumEq rvars (sum_list cs)) (fst s)))).
                  Value a p = int t))"
proof -
  define m1 where "m1 = Add (SumEq rvars (sum_list cs)) (fst s)"
  define smax where "smax = sz - sum_list cs"
  define st0 where "st0 = run_init sz ri rt cs m1"
  define st where "st = run_loop sz ri rt cs m1"
  define m4 where "m4 = fst (region_model sz ri rt rvars cs s)"
  define g0 where "g0 = lead_gap ri rt m1"
  have st_eq: "st = fold (seq_step sz ri rt smax (length cs)) (enumerate 1 cs) st0"
    by (simp add: st_def run_loop_eq smax_def st0_def)
  have m4_eq: "m4 = (st_model st)\<lparr>constraints := constraints (st_model st)
                       @ map (\<lambda>p. Element p rvars 1) (seq_variables st)
                       @ [SumEq (space_variables st) smax]\<rparr>"
    by (simp add: m4_def region_model_def Let_def fold_AddElement Add_def st_def m1_def smax_def)
  have mm: "meets m4 a" using m by (simp add: m4_def)
  have ext_st: "ext (st_model st) m4" by (simp add: m4_eq ext_def)
  have ext0: "ext (st_model st0) (st_model st)" unfolding st_eq by (rule seq_loop_ext)
  have m_st: "meets (st_model st) a" by (rule ext_meets[OF ext_st mm])
  have m_st0: "meets (st_model st0) a" by (rule ext_meets[OF ext0 m_st])
  \<comment> \<open>the constraints read off the model\<close>
  have "holds a (SumEq rvars (sum_list cs))"
    by (rule meets_holds[OF m_st0]) (simp add: st0_def run_init_def m1_def Add_def)
  then have cells_sum: "sum_list (map (Value a) rvars) = sum_list cs" by simp
  have "holds a (SumEq (space_variables st) smax)"
    by (rule meets_holds[OF mm]) (simp add: m4_eq)
  then have gaps_sum: "sum_list (map (Value a) (space_variables st)) = smax" by simp
  have el: "0 \<le> Value a p \<and> Value a p < int (length rvars) \<and> Value a (rvars ! nat (Value a p)) = 1"
    if "p \<in> set (seq_variables st)" for p
  proof -
    have "holds a (Element p rvars 1)"
      by (rule meets_holds[OF mm]) (use that in \<open>simp add: m4_eq\<close>)
    then show ?thesis by simp
  qed
  have "fst (variables (st_model st0) ! length (variables m1)) \<le> a ! length (variables m1)"
    using meets_dom[OF m_st0, of "length (variables m1)"] by (simp add: st0_def run_init_def)
  then have g0_nonneg: "0 \<le> Value a g0"
    by (simp add: st0_def run_init_def Value_def g0_def lead_gap_def)
  \<comment> \<open>the loop over the runs\<close>
  have k: "1 + length cs = Suc (length cs)" by simp
  from seq_loop_sem[OF k pos m_st[unfolded st_eq]] obtain gs where
    sp: "space_variables st = space_variables st0 @ gs"
    and lg: "length gs = length cs"
    and nonneg: "\<forall>g\<in>set gs. 0 \<le> Value a g"
    and gpos: "\<forall>g\<in>set (butlast gs). 1 \<le> Value a g"
    and bl: "\<forall>t<length (blocks (map nat cs) (map (\<lambda>g. nat (Value a g)) gs)).
                  blocks (map nat cs) (map (\<lambda>g. nat (Value a g)) gs) ! t \<longrightarrow>
                  (\<exists>p\<in>set (seq_variables st).
                     Value a p = sum_list (map (Value a) (space_variables st0)) + seq_cum st0 + int t)"
    unfolding st_eq[symmetric] by blast
  have sp0: "space_variables st0 = [g0]" and cum0: "seq_cum st0 = 0"
    by (simp_all add: st0_def run_init_def g0_def)
  let ?rs = "map nat cs"
  let ?gv = "map (\<lambda>g. nat (Value a g)) gs"
  let ?bl = "blocks ?rs ?gv"
  define pat where "pat = replicate (nat (Value a g0)) False @ ?bl"
  define line where "line = map (\<lambda>v. Value a v = 1) rvars"
  have sum_rs: "int (sum_list ?rs) = sum_list cs"
    by (rule sum_list_nat) (use pos in force)
  have "int (sum_list (map nat (map (Value a) gs))) = sum_list (map (Value a) gs)"
    by (rule sum_list_nat) (use nonneg in simp)
  then have sum_gv: "int (sum_list ?gv) = sum_list (map (Value a) gs)" by (simp add: comp_def)
  have "int (length pat) = Value a g0 + sum_list cs + sum_list (map (Value a) gs)"
    using g0_nonneg sum_rs sum_gv by (simp add: pat_def length_blocks lg)
  also have "\<dots> = sz" using gaps_sum by (simp add: sp sp0 smax_def)
  finally have len_pat: "length pat = length line" using len by (simp add: line_def)
  have cnt: "count_list pat True = count_list line True"
  proof -
    have "int (count_list pat True) = sum_list cs"
      using sum_rs by (simp add: pat_def count_blocks lg)
    moreover have "int (count_list line True) = sum_list cs"
      using sum_bool_values[OF bits] cells_sum by (simp add: line_def)
    ultimately show ?thesis by simp
  qed
  have cover: "\<exists>p\<in>set (seq_variables st). Value a p = int t" if "t < length pat" "pat ! t" for t
  proof -
    have ge: "nat (Value a g0) \<le> t" using that by (auto simp: pat_def nth_append split: if_splits)
    define t' where "t' = t - nat (Value a g0)"
    have tt: "t = nat (Value a g0) + t'" using ge by (simp add: t'_def)
    have "t' < length ?bl" "?bl ! t'" using that unfolding tt pat_def by (simp_all add: nth_append)
    with bl obtain p where "p \<in> set (seq_variables st)"
      "Value a p = sum_list (map (Value a) (space_variables st0)) + seq_cum st0 + int t'"
      by blast
    then show ?thesis using g0_nonneg by (auto simp: sp0 cum0 tt)
  qed
  have imp: "\<forall>t<length pat. pat ! t \<longrightarrow> line ! t"
  proof (intro allI impI)
    fix t assume t: "t < length pat" "pat ! t"
    from cover[OF t] obtain p where p: "p \<in> set (seq_variables st)" "Value a p = int t" by blast
    from el[OF p(1)] have "Value a (rvars ! t) = 1" by (simp add: p(2))
    then show "line ! t" using t(1) len_pat by (simp add: line_def)
  qed
  have eq: "pat = line" by (rule covered_eq[OF len_pat imp cnt])
  have "run_lengths pat 0 = ?rs"
    unfolding pat_def run_lengths_False0
    by (rule run_lengths_blocks) (use lg pos gpos in \<open>auto simp: map_butlast[symmetric]\<close>)
  moreover have "map int (map nat cs) = cs"
    using pos by (auto simp: comp_def intro!: map_idI)
  ultimately have "runs line = cs" unfolding eq[symmetric] runs_def by simp
  moreover have "Value a (rvars ! t) = 1 \<longleftrightarrow> (\<exists>p\<in>set (seq_variables st). Value a p = int t)"
    if t: "t < length rvars" for t
  proof
    assume "Value a (rvars ! t) = 1"
    then have "pat ! t" using t by (simp add: eq line_def)
    then show "\<exists>p\<in>set (seq_variables st). Value a p = int t"
      using cover t len_pat by (simp add: line_def)
  next
    assume "\<exists>p\<in>set (seq_variables st). Value a p = int t"
    then obtain p where p: "p \<in> set (seq_variables st)" "Value a p = int t" by blast
    from el[OF p(1)] show "Value a (rvars ! t) = 1" by (simp add: p(2))
  qed
  ultimately show ?thesis unfolding line_def st_def m1_def by blast
qed

section \<open>The compiled model of a well-formed board\<close>

lemma cell_loop_eq:
  "fold (cell_step row) [0..<k] (m, []) =
     (m\<lparr>variables := variables m @ replicate k (0, 1)\<rparr>,
      map (\<lambda>c. \<lparr>Index = length (variables m) + c, Name = CellName row c\<rparr>) [0..<k])"
proof (induction k)
  case 0 show ?case by simp
next
  case (Suc k)
  show ?case
    by (simp only: fold_upt_Suc Suc)
       (simp add: cell_step_def NewBoolVar_def NewIntVar_def replicate_append_same)
qed

lemma row_step_eq:
  "row_step n row (m, cc) =
     (m\<lparr>variables := variables m @ replicate n (0, 1)\<rparr>,
      cc[row := map (\<lambda>c. \<lparr>Index = length (variables m) + c, Name = CellName row c\<rparr>) [0..<n]])"
  by (simp add: row_step_def cell_loop_eq)

lemma rows_loop_eq:
  "k \<le> n \<Longrightarrow>
   fold (row_step n) [0..<k] (new_CpModel, replicate n []) =
     (\<lparr>variables = replicate (k * n) (0, 1), constraints = []\<rparr>,
      map (\<lambda>r. map (cell_var n r) [0..<n]) [0..<k] @ replicate (n - k) [])"
proof (induction k)
  case 0 show ?case by (simp add: new_CpModel_def)
next
  case (Suc k)
  then have k: "k < n" by simp
  have rep: "replicate (n - k) [] = ([]::IntVar list) # replicate (n - Suc k) []"
    using k by (metis Suc_diff_Suc replicate_Suc)
  have IH: "fold (row_step n) [0..<k] (new_CpModel, replicate n []) =
     (\<lparr>variables = replicate (k * n) (0, 1), constraints = []\<rparr>,
      map (\<lambda>r. map (cell_var n r) [0..<n]) [0..<k] @ replicate (n - k) [])"
    using Suc by simp
  show ?case
    by (simp only: fold_upt_Suc IH row_step_eq)
       (simp add: rep list_update_append cell_var_def replicate_add[symmetric] add.commute)
qed

lemma make_cells_eq:
  "make_cells n new_CpModel = (\<lparr>variables = replicate (n * n) (0, 1), constraints = []\<rparr>, cell_vars n)"
  by (simp add: make_cells_def rows_loop_eq cell_vars_def)

lemma mapE_total:
  "(\<And>x. x \<in> set xs \<Longrightarrow> f x = Inr (g x)) \<Longrightarrow> mapE f xs = Inr (map g xs)"
  by (induction xs) (simp_all add: bindE_def)

lemma cell_vars_nth: "r < n \<Longrightarrow> cell_vars n ! r = map (cell_var n r) [0..<n]"
  by (simp add: cell_vars_def)

lemma region_vars_row: "region_vars n (row_line n i) = map (cell_var n i) [0..<n]"
  by (simp add: region_vars_def row_line_def comp_def)

lemma region_vars_column: "region_vars n (column_line n i) = map (\<lambda>j. cell_var n j i) [0..<n]"
  by (simp add: region_vars_def column_line_def comp_def)

lemma length_region_vars [simp]: "length (region_vars n ps) = length ps"
  by (simp add: region_vars_def)

lemma region_step_row:
  assumes "0 < n" "i < n" "region r = row_line n i"
  shows "region_step sz (cell_vars n) r s =
           Inr (region_model sz i RowType (region_vars n (region r)) (constraint r) s)"
  using assms
  by (simp add: region_step_def is_row_row_line[OF assms(1,3)] bindE_def list.case_eq_if
        hd_row_line nthE_def cell_vars_nth region_vars_row cell_vars_def)

lemma region_step_column:
  assumes "1 < n" "i < n" "region r = column_line n i"
  shows "region_step sz (cell_vars n) r s =
           Inr (region_model sz i ColumnType (region_vars n (region r)) (constraint r) s)"
proof -
  have n: "0 < n" using assms(1) by simp
  have "mapE (\<lambda>var. nthE var i) (cell_vars n) = Inr (map (\<lambda>var. var ! i) (cell_vars n))"
    by (rule mapE_total) (use assms(2) in \<open>auto simp: cell_vars_def nthE_def\<close>)
  moreover have "map (\<lambda>var. var ! i) (cell_vars n) = region_vars n (column_line n i)"
    using assms(2) by (simp add: cell_vars_def region_vars_column comp_def)
  ultimately show ?thesis using assms
    by (simp add: region_step_def is_row_column_line[OF n assms(3)] bindE_def list.case_eq_if
        hd_column_line)
qed

lemma region_step_column1:
  assumes "region r = column_line 1 0"
  shows "region_step sz (cell_vars 1) r s =
           Inr (region_model sz 0 RowType (region_vars 1 (region r)) (constraint r) s)"
proof -
  have "region r = row_line 1 0" using assms by (simp add: row_line_def column_line_def)
  then show ?thesis using region_step_row[of 1 0 r] by simp
qed

lemma wf_good_region:
  assumes "wf_board b" "r \<in> set (regions b)"
  shows "good_region (board_size b) (nat (board_size b)) r"
proof -
  let ?n = "nat (board_size b)"
  from assms(2) obtain k where k: "k < length (regions b)" "r = regions b ! k"
    by (auto simp: in_set_conv_nth)
  then have k2: "k < 2 * ?n" using wf_length[OF assms(1)] by simp
  then have n: "0 < ?n" by simp
  have half: "k div 2 < ?n" using k2 by simp
  note reg = wf_region_nth[OF assms(1) k2, folded k(2)]
  show ?thesis
  proof (cases "even k")
    case True
    then have "region r = row_line ?n (k div 2)" using reg by simp
    then show ?thesis unfolding good_region_def
      using region_step_row[OF n half] by auto
  next
    case False
    then have c: "region r = column_line ?n (k div 2)" using reg by simp
    show ?thesis
    proof (cases "?n = 1")
      case True
      then have "k div 2 = 0" using half by simp
      then show ?thesis unfolding good_region_def
        using region_step_column1[of r] c True by auto
    next
      case False
      then have "1 < ?n" using n by simp
      then show ?thesis unfolding good_region_def
        using region_step_column[OF _ half c] c by auto
    qed
  qed
qed

lemma region_model_fst:
  "fst (region_model sz ri rt rvars cs s) =
     (let st = run_loop sz ri rt cs (Add (SumEq rvars (sum_list cs)) (fst s))
      in (st_model st)\<lparr>constraints := constraints (st_model st)
                       @ map (\<lambda>p. Element p rvars 1) (seq_variables st)
                       @ [SumEq (space_variables st) (sz - sum_list cs)]\<rparr>)"
  by (simp add: region_model_def Let_def fold_AddElement Add_def)

lemma region_model_snd:
  "snd (region_model sz ri rt rvars cs s) =
     (let st = run_loop sz ri rt cs (Add (SumEq rvars (sum_list cs)) (fst s))
      in snd s @ space_variables st @ seq_variables st)"
  by (simp add: region_model_def Let_def)

lemma run_loop_ext: "ext m (st_model (run_loop sz ri rt cs m))"
proof -
  have "ext m (st_model (run_init sz ri rt cs m))" by (simp add: run_init_def ext_def)
  then show ?thesis unfolding run_loop_eq using seq_loop_ext ext_trans by blast
qed

lemma region_model_ext: "ext (fst s) (fst (region_model sz ri rt rvars cs s))"
proof -
  let ?m1 = "Add (SumEq rvars (sum_list cs)) (fst s)"
  let ?st = "run_loop sz ri rt cs ?m1"
  have "ext (fst s) ?m1" by simp
  moreover have "ext ?m1 (st_model ?st)" by (rule run_loop_ext)
  moreover have "ext (st_model ?st) (fst (region_model sz ri rt rvars cs s))"
    by (simp add: region_model_fst Let_def ext_def)
  ultimately show ?thesis using ext_trans by blast
qed

lemma seq_step_names:
  assumes "\<forall>v\<in>set (space_variables st @ seq_variables st). \<not> is_cell_name (Name v)"
  shows "\<forall>v\<in>set (space_variables (seq_step sz ri rt smax len p st)
                   @ seq_variables (seq_step sz ri rt smax len p st)). \<not> is_cell_name (Name v)"
  using assms by (cases p) (auto simp: seq_step_eq is_cell_name_def)

lemma seq_loop_names:
  assumes "\<forall>v\<in>set (space_variables st @ seq_variables st). \<not> is_cell_name (Name v)"
  shows "\<forall>v\<in>set (space_variables (fold (seq_step sz ri rt smax len) ps st)
                   @ seq_variables (fold (seq_step sz ri rt smax len) ps st)). \<not> is_cell_name (Name v)"
  using assms
proof (induction ps arbitrary: st)
  case Nil then show ?case by simp
next
  case (Cons p ps)
  show ?case using Cons.IH[OF seq_step_names[OF Cons.prems]] by simp
qed

lemma run_loop_names:
  "\<forall>v\<in>set (space_variables (run_loop sz ri rt cs m) @ seq_variables (run_loop sz ri rt cs m)).
      \<not> is_cell_name (Name v)"
  unfolding run_loop_eq
  by (rule seq_loop_names) (simp add: run_init_def lead_gap_def is_cell_name_def)

lemma region_model_names:
  assumes "\<forall>v\<in>set (snd s). \<not> is_cell_name (Name v)"
  shows "\<forall>v\<in>set (snd (region_model sz ri rt rvars cs s)). \<not> is_cell_name (Name v)"
  using assms run_loop_names[of sz ri rt cs "Add (SumEq rvars (sum_list cs)) (fst s)"]
  by (auto simp: region_model_snd Let_def)

lemma foldE_regions:
  assumes "\<forall>r\<in>set rs. good_region sz n r"
  shows "\<exists>s'. foldE (region_step sz (cell_vars n)) rs s = Inr s'
            \<and> ext (fst s) (fst s')
            \<and> ((\<forall>v\<in>set (snd s). \<not> is_cell_name (Name v)) \<longrightarrow>
                 (\<forall>v\<in>set (snd s'). \<not> is_cell_name (Name v)))
            \<and> (\<forall>r\<in>set rs. \<exists>ri rt s1.
                   ext (fst (region_model sz ri rt (region_vars n (region r)) (constraint r) s1))
                       (fst s'))"
  using assms
proof (induction rs arbitrary: s)
  case Nil show ?case by simp
next
  case (Cons r rs)
  from Cons.prems obtain ri rt where
    step: "\<And>s. region_step sz (cell_vars n) r s =
             Inr (region_model sz ri rt (region_vars n (region r)) (constraint r) s)"
    unfolding good_region_def by auto
  define s1 where "s1 = region_model sz ri rt (region_vars n (region r)) (constraint r) s"
  have rest: "\<forall>r\<in>set rs. good_region sz n r" using Cons.prems by simp
  from Cons.IH[OF rest, of s1] obtain s' where
    f: "foldE (region_step sz (cell_vars n)) rs s1 = Inr s'"
    and e: "ext (fst s1) (fst s')"
    and nm: "(\<forall>v\<in>set (snd s1). \<not> is_cell_name (Name v)) \<longrightarrow>
               (\<forall>v\<in>set (snd s'). \<not> is_cell_name (Name v))"
    and rg: "\<forall>r\<in>set rs. \<exists>ri rt s2.
               ext (fst (region_model sz ri rt (region_vars n (region r)) (constraint r) s2)) (fst s')"
    by blast
  have e1: "ext (fst s) (fst s1)" unfolding s1_def by (rule region_model_ext)
  show ?case
  proof (intro exI[of _ s'] conjI)
    show "foldE (region_step sz (cell_vars n)) (r # rs) s = Inr s'"
      using f by (simp add: step bindE_def s1_def)
    show "ext (fst s) (fst s')" by (rule ext_trans[OF e1 e])
    show "(\<forall>v\<in>set (snd s). \<not> is_cell_name (Name v)) \<longrightarrow>
            (\<forall>v\<in>set (snd s'). \<not> is_cell_name (Name v))"
      using nm region_model_names[of s] unfolding s1_def by blast
    show "\<forall>r\<in>set (r # rs). \<exists>ri rt s1.
            ext (fst (region_model sz ri rt (region_vars n (region r)) (constraint r) s1)) (fst s')"
    proof
      fix r' assume "r' \<in> set (r # rs)"
      then consider "r' = r" | "r' \<in> set rs" by auto
      then show "\<exists>ri rt s1.
            ext (fst (region_model sz ri rt (region_vars n (region r')) (constraint r') s1)) (fst s')"
      proof cases
        case 1
        show ?thesis unfolding 1 using e unfolding s1_def by blast
      next
        case 2
        then show ?thesis using rg by blast
      qed
    qed
  qed
qed

lemma compile_wf:
  assumes "wf_board b"
  shows "\<exists>m cr. compile b = Inr (m, cell_vars (nat (board_size b)), cr)
            \<and> ext (cells_model (nat (board_size b))) m
            \<and> (\<forall>v\<in>set cr. \<not> is_cell_name (Name v))
            \<and> (\<forall>r\<in>set (regions b). \<exists>ri rt s1.
                   ext (fst (region_model (board_size b) ri rt
                          (region_vars (nat (board_size b)) (region r)) (constraint r) s1)) m)"
proof -
  let ?n = "nat (board_size b)"
  have good: "\<forall>r\<in>set (regions b). good_region (board_size b) ?n r"
    using wf_good_region[OF assms] by blast
  from foldE_regions[OF good, of "(cells_model ?n, [])"] obtain s' where
    "foldE (region_step (board_size b) (cell_vars ?n)) (regions b) (cells_model ?n, []) = Inr s'"
    "ext (cells_model ?n) (fst s')"
    "\<forall>v\<in>set (snd s'). \<not> is_cell_name (Name v)"
    "\<forall>r\<in>set (regions b). \<exists>ri rt s1.
        ext (fst (region_model (board_size b) ri rt (region_vars ?n (region r)) (constraint r) s1))
            (fst s')"
    by auto
  then show ?thesis
    by (intro exI[of _ "fst s'"] exI[of _ "snd s'"])
       (simp add: compile_def make_cells_eq cells_model_def bindE_def)
qed

lemma fold_callback:
  "fold on_solution_callback as p =
     p\<lparr>printer_solutions := printer_solutions p
          @ map (\<lambda>a. map (\<lambda>v. (v, Value a v)) (printer_variables p)) as\<rparr>"
  by (induction as arbitrary: p) (simp_all add: on_solution_callback_def printer_variables_def)

lemma in_all_assignments: "a \<in> set (all_assignments m) \<longleftrightarrow> in_domains m a"
  by (simp add: all_assignments_def product_lists_set in_domains_def list_all2_map2)

lemma solve_eq:
  assumes "compile b = Inr (m, cc, cr)"
  shows "solve b = Inr (b\<lparr>solutions :=
           map (\<lambda>a. map (\<lambda>v. (v, Value a v)) (concat cc @ cr))
               (filter (\<lambda>a. list_all (holds a) (constraints m)) (all_assignments m))\<rparr>)"
  by (simp add: solve_def assms bindE_def SearchForAllSolutions_def fold_callback
        new_CpSolutionPrinter_def printer_variables_def)

lemma solve_solutions:
  assumes "compile b = Inr (m, cc, cr)" "solve b = Inr b'"
  shows "set (solutions b') = (\<lambda>a. map (\<lambda>v. (v, Value a v)) (concat cc @ cr)) ` {a. satisfies m a}"
  using assms(2) unfolding solve_eq[OF assms(1)]
  by (auto simp: satisfies_def in_all_assignments)

section \<open>Solutions are grids that draw every region's runs\<close>

lemma concat_map_single:
  "i < n \<Longrightarrow> concat (map (\<lambda>r. if r = i then f r else []) [0..<n]) = f i"
proof (induction n)
  case 0 then show ?case by simp
next
  case (Suc n)
  show ?case
  proof (cases "i = n")
    case True
    have "concat (map (\<lambda>r. if r = i then f r else []) [0..<n]) = []"
      using True by (simp add: concat_eq_Nil_conv)
    then show ?thesis using True by simp
  next
    case False
    then show ?thesis using Suc by simp
  qed
qed

lemma filter_row_cells:
  assumes "i < n"
  shows "filter (\<lambda>v. row_of i (Name v)) (concat (cell_vars n)) = map (cell_var n i) [0..<n]"
proof -
  have "filter (\<lambda>v. row_of i (Name v)) (map (cell_var n r) [0..<n])
          = (if r = i then map (cell_var n r) [0..<n] else [])" for r
    by (simp add: filter_map comp_def cell_var_def row_of_def)
  then have "filter (\<lambda>v. row_of i (Name v)) (concat (cell_vars n))
          = concat (map (\<lambda>r. if r = i then map (cell_var n r) [0..<n] else []) [0..<n])"
    by (simp add: cell_vars_def filter_concat comp_def)
  then show ?thesis using concat_map_single[OF assms] by simp
qed

lemma filter_row_regions:
  assumes "\<forall>v\<in>set cr. \<not> is_cell_name (Name v)"
  shows "filter (\<lambda>v. row_of i (Name v)) cr = []"
  using assms by (auto simp: filter_empty_conv row_of_def is_cell_name_def split: var_name.splits)

lemma solution_data_eq:
  assumes "\<forall>v\<in>set cr. \<not> is_cell_name (Name v)" "n = nat (board_size b)"
  shows "solution_data b (map (\<lambda>v. (v, Value a v)) (concat (cell_vars n) @ cr)) =
           map (\<lambda>i. map (\<lambda>c. \<lparr>cell_value = (Value a (cell_var n i c) \<noteq> 0)\<rparr>) [0..<n]) [0..<n]"
proof -
  have "map (\<lambda>cv. \<lparr>cell_value = (snd cv \<noteq> 0)\<rparr>)
          (filter (\<lambda>cv. case Name (fst cv) of CellName r c \<Rightarrow> r = i | _ \<Rightarrow> False)
             (map (\<lambda>v. (v, Value a v)) (concat (cell_vars n) @ cr)))
        = map (\<lambda>c. \<lparr>cell_value = (Value a (cell_var n i c) \<noteq> 0)\<rparr>) [0..<n]"
    if "i < n" for i
  proof -
    have "filter (\<lambda>cv. case Name (fst cv) of CellName r c \<Rightarrow> r = i | _ \<Rightarrow> False)
             (map (\<lambda>v. (v, Value a v)) (concat (cell_vars n) @ cr))
          = map (\<lambda>v. (v, Value a v)) (filter (\<lambda>v. row_of i (Name v)) (concat (cell_vars n) @ cr))"
      by (simp only: filter_map comp_def fst_conv row_of_def)
    also have "\<dots> = map (\<lambda>v. (v, Value a v)) (map (cell_var n i) [0..<n])"
      using filter_row_cells[OF that] filter_row_regions[OF assms(1)] by simp
    finally show ?thesis by (simp add: comp_def)
  qed
  then show ?thesis unfolding solution_data_def assms(2)[symmetric] by simp
qed

lemma line_of_grid:
  assumes "\<forall>p\<in>set (region r). coord_x p < n \<and> coord_y p < n"
  shows "line_of (map (\<lambda>i. map (\<lambda>c. \<lparr>cell_value = (Value a (cell_var n i c) \<noteq> 0)\<rparr>) [0..<n]) [0..<n]) r
           = map (\<lambda>v. Value a v \<noteq> 0) (region_vars n (region r))"
  using assms by (simp add: line_of_def region_vars_def)

lemma board_lines_range:
  assumes "ps \<in> set (board_lines n)" "p \<in> set ps"
  shows "coord_x p < n \<and> coord_y p < n"
proof -
  from assms(1) obtain k where k: "k < 2 * n"
    "ps = (if even k then row_line n (k div 2) else column_line n (k div 2))"
    by (auto simp: board_lines_def)
  then have "k div 2 < n" by simp
  then show ?thesis using assms(2) k(2)
    by (auto simp: row_line_def column_line_def split: if_splits)
qed

lemma wf_region_range:
  assumes "wf_board b" "r \<in> set (regions b)" "p \<in> set (region r)"
  shows "coord_x p < nat (board_size b) \<and> coord_y p < nat (board_size b)"
proof -
  have "region r \<in> set (board_lines (nat (board_size b)))"
    using assms(1,2) unfolding wf_board_def by (metis image_eqI set_map)
  then show ?thesis using assms(3) by (rule board_lines_range)
qed

lemma cell_index_bound: "r < n \<Longrightarrow> c < n \<Longrightarrow> r * n + c < n * (n::nat)"
proof -
  assume a: "r < n" "c < n"
  then have "r * n + c < Suc r * n" by simp
  also have "\<dots> \<le> n * n" using a(1) by (metis Suc_leI mult_le_mono1)
  finally show ?thesis .
qed

lemma cell_bits:
  assumes "meets m a" "ext (cells_model n) m" "r < n" "c < n"
  shows "Value a (cell_var n r c) = 0 \<or> Value a (cell_var n r c) = 1"
proof -
  have mc: "meets (cells_model n) a" by (rule ext_meets[OF assms(2,1)])
  have i: "r * n + c < length (variables (cells_model n))"
    using cell_index_bound[OF assms(3,4)] by (simp add: cells_model_def)
  from meets_dom[OF mc i] have "0 \<le> a ! (r * n + c) \<and> a ! (r * n + c) \<le> 1"
    using i by (simp add: cells_model_def)
  then show ?thesis by (auto simp: Value_def cell_var_def)
qed

lemma solve_sound:
  assumes wf: "wf_board b"
    and pos: "\<forall>r\<in>set (regions b). \<forall>c\<in>set (constraint r). 0 < c"
  shows "\<exists>b'. solve b = Inr b' \<and> board_size b' = board_size b \<and> regions b' = regions b
           \<and> board b' = board b
           \<and> (\<forall>s\<in>set (solutions b').
                length (solution_data b s) = nat (board_size b)
              \<and> (\<forall>row\<in>set (solution_data b s). length row = nat (board_size b))
              \<and> (\<forall>r\<in>set (regions b). runs (line_of (solution_data b s) r) = constraint r))"
proof -
  let ?n = "nat (board_size b)"
  from compile_wf[OF wf] obtain m cr where
    c: "compile b = Inr (m, cell_vars ?n, cr)"
    and ec: "ext (cells_model ?n) m"
    and nm: "\<forall>v\<in>set cr. \<not> is_cell_name (Name v)"
    and rg: "\<forall>r\<in>set (regions b). \<exists>ri rt s1.
               ext (fst (region_model (board_size b) ri rt
                      (region_vars ?n (region r)) (constraint r) s1)) m"
    by blast
  define b' where "b' = b\<lparr>solutions :=
           map (\<lambda>a. map (\<lambda>v. (v, Value a v)) (concat (cell_vars ?n) @ cr))
               (filter (\<lambda>a. list_all (holds a) (constraints m)) (all_assignments m))\<rparr>"
  have sb: "solve b = Inr b'" unfolding b'_def by (rule solve_eq[OF c])
  have "length (solution_data b s) = ?n
      \<and> (\<forall>row\<in>set (solution_data b s). length row = ?n)
      \<and> (\<forall>r\<in>set (regions b). runs (line_of (solution_data b s) r) = constraint r)"
    if "s \<in> set (solutions b')" for s
  proof -
    from that solve_solutions[OF c sb] obtain a where
      sat: "satisfies m a" and s: "s = map (\<lambda>v. (v, Value a v)) (concat (cell_vars ?n) @ cr)"
      by auto
    have ma: "meets m a" by (rule satisfies_meets[OF sat])
    have grid: "solution_data b s =
           map (\<lambda>i. map (\<lambda>c. \<lparr>cell_value = (Value a (cell_var ?n i c) \<noteq> 0)\<rparr>) [0..<?n]) [0..<?n]"
      unfolding s by (rule solution_data_eq[OF nm refl])
    have "runs (line_of (solution_data b s) r) = constraint r" if r: "r \<in> set (regions b)" for r
    proof -
      let ?rv = "region_vars ?n (region r)"
      from rg r obtain ri rt s1 where
        e: "ext (fst (region_model (board_size b) ri rt ?rv (constraint r) s1)) m" by blast
      have rng: "\<forall>p\<in>set (region r). coord_x p < ?n \<and> coord_y p < ?n"
        using wf_region_range[OF wf r] by blast
      have bits: "\<forall>v\<in>set ?rv. Value a v = 0 \<or> Value a v = 1"
        using rng cell_bits[OF ma ec] by (auto simp: region_vars_def)
      have "length (region r) = ?n"
        using wf_good_region[OF wf r] by (simp add: good_region_def)
      moreover have "0 < ?n" using wf_length[OF wf] r by (cases "?n") auto
      ultimately have len: "int (length ?rv) = board_size b" by simp
      have "runs (map (\<lambda>v. Value a v = 1) ?rv) = constraint r"
        using region_model_sem[OF ext_meets[OF e ma] _ bits len] pos r by blast
      moreover have "map (\<lambda>v. Value a v = 1) ?rv = map (\<lambda>v. Value a v \<noteq> 0) ?rv"
        using bits by auto
      ultimately show ?thesis unfolding grid line_of_grid[OF rng] by simp
    qed
    then show ?thesis by (simp add: grid)
  qed
  then show ?thesis using sb by (intro exI[of _ b']) (simp add: b'_def)
qed

section \<open>Boards of side two\<close>

lemma wf_grid_2x2: "wf_board (grid_2x2 r0 r1 c0 c1)"
  by (simp add: wf_board_def grid_2x2_def board_lines_def upt_conv_Cons del: upt_Suc)

lemma init_2: "NonogramBoard_init 2 = grid_2x2 [] [] [] []"
  by (simp add: NonogramBoard_init_def grid_2x2_def new_Region_def upt_conv_Cons del: upt_Suc)

lemma board_2x2_eq: "board_2x2 r0 r1 c0 c1 = Inr (grid_2x2 r0 r1 c0 c1)"
proof -
  have 1: "constraint_of ''row'' 0 r0 (grid_2x2 [] [] [] []) = Inr (grid_2x2 r0 [] [] [])"
    by (subst constraint_of_wf[OF wf_grid_2x2]) (simp_all add: grid_2x2_def selected_position_def)
  have 2: "constraint_of ''row'' 1 r1 (grid_2x2 r0 [] [] []) = Inr (grid_2x2 r0 r1 [] [])"
    by (subst constraint_of_wf[OF wf_grid_2x2]) (simp_all add: grid_2x2_def selected_position_def)
  have 3: "constraint_of ''column'' 0 c0 (grid_2x2 r0 r1 [] []) = Inr (grid_2x2 r0 r1 c0 [])"
    by (subst constraint_of_wf[OF wf_grid_2x2]) (simp_all add: grid_2x2_def selected_position_def)
  have 4: "constraint_of ''column'' 1 c1 (grid_2x2 r0 r1 c0 []) = Inr (grid_2x2 r0 r1 c0 c1)"
    by (subst constraint_of_wf[OF wf_grid_2x2]) (simp_all add: grid_2x2_def selected_position_def)
  show ?thesis by (simp add: board_2x2_def init_2 1 2 3 4 bindE_def)
qed

section \<open>Further facts on solving and on constraint assignment\<close>

lemma compile_solutions [simp]: "compile (b\<lparr>solutions := x\<rparr>) = compile b"
  by (simp add: compile_def)

lemma solve_cases:
  assumes "solve b = Inr b1"
  obtains m cc cr where "compile b = Inr (m, cc, cr)"
    "b1 = b\<lparr>solutions := map (\<lambda>a. map (\<lambda>v. (v, Value a v)) (concat cc @ cr))
               (filter (\<lambda>a. list_all (holds a) (constraints m)) (all_assignments m))\<rparr>"
proof (cases "compile b")
  case (Inl e)
  then show ?thesis using assms by (simp add: solve_def bindE_def)
next
  case (Inr t)
  obtain m cc cr where t: "t = (m, cc, cr)" by (cases t)
  show ?thesis using that[of m cc cr] solve_eq[of b m cc cr] Inr assms by (simp add: t)
qed

lemma solve_total: "wf_board b \<Longrightarrow> \<exists>b'. solve b = Inr b'"
  using compile_wf[of b] solve_eq[of b] by blast


lemma runs_pair: "runs [x, y] = (if x \<and> y then [2] else if x \<or> y then [1] else [])"
  by (cases x; cases y) (simp_all add: runs_def)

lemma line_of_row_2:
  "line_of g \<lparr>region = row_line 2 i, constraint = cs\<rparr>
     = [cell_value (g ! i ! 0), cell_value (g ! i ! 1)]"
  by (simp add: line_of_def row_line_def upt_conv_Cons del: upt_Suc)

lemma line_of_column_2:
  "line_of g \<lparr>region = column_line 2 i, constraint = cs\<rparr>
     = [cell_value (g ! 0 ! i), cell_value (g ! 1 ! i)]"
  by (simp add: line_of_def column_line_def upt_conv_Cons del: upt_Suc)

lemma solve_unsat_2x2:
  "solve (grid_2x2 [2] [2] [1] [1]) = Inr ((grid_2x2 [2] [2] [1] [1])\<lparr>solutions := []\<rparr>)"
proof -
  let ?b = "grid_2x2 [2] [2] [1] [1]"
  have pos: "\<forall>r\<in>set (regions ?b). \<forall>c\<in>set (constraint r). 0 < c"
    by (simp add: grid_2x2_def)
  from solve_sound[OF wf_grid_2x2 pos] obtain b' where
    s: "solve ?b = Inr b'"
    and snd: "\<forall>s\<in>set (solutions b').
                \<forall>r\<in>set (regions ?b). runs (line_of (solution_data ?b s) r) = constraint r"
    by blast
  have "solutions b' = []"
  proof (rule ccontr)
    assume "solutions b' \<noteq> []"
    then obtain s where "s \<in> set (solutions b')" by (cases "solutions b'") auto
    with snd have r: "\<forall>r\<in>set (regions ?b). runs (line_of (solution_data ?b s) r) = constraint r"
      by blast
    let ?g = "solution_data ?b s"
    from r have "runs [cell_value (?g ! 0 ! 0), cell_value (?g ! 0 ! 1)] = [2]"
      and "runs [cell_value (?g ! 1 ! 0), cell_value (?g ! 1 ! 1)] = [2]"
      and "runs [cell_value (?g ! 0 ! 0), cell_value (?g ! 1 ! 0)] = [1]"
      by (simp_all add: grid_2x2_def line_of_row_2 line_of_column_2)
    then show False by (simp add: runs_pair split: if_splits)
  qed
  moreover from s obtain X where "b' = ?b\<lparr>solutions := X\<rparr>" by (rule solve_cases)
  ultimately show ?thesis using s by auto
qed

section \<open>The variables and constraints of one region\<close>

lemma ext_nth:
  "ext m m' \<Longrightarrow> i < length (variables m)
     \<Longrightarrow> i < length (variables m') \<and> variables m' ! i = variables m ! i"
  by (auto simp: ext_def nth_append)

lemma ext_constraint: "ext m m' \<Longrightarrow> c \<in> set (constraints m) \<Longrightarrow> c \<in> set (constraints m')"
  by (auto simp: ext_def)

lemma ext_has_domain: "ext m m' \<Longrightarrow> has_domain m v d \<Longrightarrow> has_domain m' v d"
  using ext_nth by (auto simp: has_domain_def)

lemma seq_step_gap_domain:
  "has_domain (st_model (seq_step sz ri rt smax len (k, r) st)) (gap_var ri rt k r st)
     (if k = len then 0 else 1, max 1 smax)"
  by (simp add: has_domain_def seq_step_eq gap_var_def nth_append)

lemma seq_loop_gaps:
  assumes "k + length cs = Suc len"
  shows "\<exists>gs. space_variables (fold (seq_step sz ri rt smax len) (enumerate k cs) st)
               = space_variables st @ gs
            \<and> length gs = length cs
            \<and> (\<forall>i<length cs.
                  has_domain (st_model (fold (seq_step sz ri rt smax len) (enumerate k cs) st))
                     (gs ! i) (if k + i = len then 0 else 1, max 1 smax)
                \<and> Name (gs ! i) = SpaceName ri rt (k + i))"
  using assms
proof (induction cs arbitrary: k st)
  case Nil
  show ?case by simp
next
  case (Cons r cs)
  define S1 where "S1 = seq_step sz ri rt smax len (k, r) st"
  define F where "F = fold (seq_step sz ri rt smax len) (enumerate (Suc k) cs) S1"
  define g where "g = gap_var ri rt k r st"
  have F_eq: "fold (seq_step sz ri rt smax len) (enumerate k (r # cs)) st = F"
    by (simp add: F_def S1_def)
  have klen: "Suc k + length cs = Suc len" using Cons.prems by simp
  from Cons.IH[OF klen, of S1] obtain gs where
    sp: "space_variables F = space_variables S1 @ gs"
    and lg: "length gs = length cs"
    and dom: "\<forall>i<length cs. has_domain (st_model F) (gs ! i)
                 (if Suc k + i = len then 0 else 1, max 1 smax)
               \<and> Name (gs ! i) = SpaceName ri rt (Suc k + i)"
    unfolding F_def[symmetric] by blast
  have spS1: "space_variables S1 = space_variables st @ [g]"
    by (simp add: S1_def g_def seq_step_space)
  have e: "ext (st_model S1) (st_model F)" unfolding F_def by (rule seq_loop_ext)
  have g_dom: "has_domain (st_model F) g (if k = len then 0 else 1, max 1 smax)"
    using ext_has_domain[OF e] seq_step_gap_domain[of sz ri rt smax len k r st]
    by (simp add: S1_def g_def)
  have g_name: "Name g = SpaceName ri rt k" by (simp add: g_def gap_var_def)
  have "has_domain (st_model F) ((g # gs) ! i) (if k + i = len then 0 else 1, max 1 smax)
         \<and> Name ((g # gs) ! i) = SpaceName ri rt (k + i)" if "i < length (r # cs)" for i
  proof (cases i)
    case 0
    then show ?thesis using g_dom g_name by simp
  next
    case (Suc j)
    then have "j < length cs" using that by simp
    then show ?thesis using dom Suc by simp
  qed
  then show ?case unfolding F_eq
    by (intro exI[of _ "g # gs"]) (simp add: sp spS1 lg)
qed

lemma seq_step_seq:
  "seq_variables (seq_step sz ri rt smax len (k, r) st)
     = seq_variables st @ map (el_var ri rt st) [0..<nat r]"
  by (simp add: seq_step_eq el_var_def)

lemma seq_step_el_facts:
  assumes "t < nat r"
  shows "has_domain (st_model (seq_step sz ri rt smax len (k, r) st)) (el_var ri rt st t) (0, sz)"
    and "VarEq (el_var ri rt st t) (space_variables st) (seq_cum st + int t)
           \<in> set (constraints (st_model (seq_step sz ri rt smax len (k, r) st)))"
  using assms by (simp_all add: has_domain_def seq_step_eq el_var_def nth_append)

lemma seq_loop_space_prefix:
  "\<exists>gs. space_variables (fold (seq_step sz ri rt smax len) ps st) = space_variables st @ gs"
proof (induction ps arbitrary: st)
  case Nil show ?case by simp
next
  case (Cons p ps)
  obtain a b where p: "p = (a, b)" by (cases p)
  from Cons[of "seq_step sz ri rt smax len p st"] show ?case
    by (auto simp: p seq_step_space)
qed

lemma seq_loop_elements:
  "\<exists>ps. seq_variables (fold (seq_step sz ri rt smax len) (enumerate k cs) st)
               = seq_variables st @ ps
      \<and> length ps = sum_list (map nat cs)
      \<and> (\<forall>i<length cs. \<forall>t<nat (cs ! i).
            has_domain (st_model (fold (seq_step sz ri rt smax len) (enumerate k cs) st))
               (ps ! (sum_list (map nat (take i cs)) + t)) (0, sz)
          \<and> VarEq (ps ! (sum_list (map nat (take i cs)) + t))
               (take (length (space_variables st) + i)
                  (space_variables (fold (seq_step sz ri rt smax len) (enumerate k cs) st)))
               (seq_cum st + sum_list (take i cs) + int t)
              \<in> set (constraints (st_model (fold (seq_step sz ri rt smax len) (enumerate k cs) st))))"
proof (induction cs arbitrary: k st)
  case Nil
  show ?case by simp
next
  case (Cons r cs)
  define S1 where "S1 = seq_step sz ri rt smax len (k, r) st"
  define F where "F = fold (seq_step sz ri rt smax len) (enumerate (Suc k) cs) S1"
  define ps0 where "ps0 = map (el_var ri rt st) [0..<nat r]"
  have F_eq: "fold (seq_step sz ri rt smax len) (enumerate k (r # cs)) st = F"
    by (simp add: F_def S1_def)
  from Cons.IH[of "Suc k" S1] obtain ps where
    sq: "seq_variables F = seq_variables S1 @ ps"
    and lp: "length ps = sum_list (map nat cs)"
    and el: "\<forall>i<length cs. \<forall>t<nat (cs ! i).
            has_domain (st_model F) (ps ! (sum_list (map nat (take i cs)) + t)) (0, sz)
          \<and> VarEq (ps ! (sum_list (map nat (take i cs)) + t))
               (take (length (space_variables S1) + i) (space_variables F))
               (seq_cum S1 + sum_list (take i cs) + int t)
              \<in> set (constraints (st_model F))"
    unfolding F_def[symmetric] by blast
  have sqS1: "seq_variables S1 = seq_variables st @ ps0"
    by (simp add: S1_def ps0_def seq_step_seq)
  have l0: "length ps0 = nat r" by (simp add: ps0_def)
  have spS1: "space_variables S1 = space_variables st @ [gap_var ri rt k r st]"
    by (simp add: S1_def seq_step_space)
  have cumS1: "seq_cum S1 = seq_cum st + r" by (simp add: S1_def seq_step_cum)
  have e: "ext (st_model S1) (st_model F)" unfolding F_def by (rule seq_loop_ext)
  obtain gs where spF: "space_variables F = space_variables S1 @ gs"
    unfolding F_def using seq_loop_space_prefix by blast
  have first: "take (length (space_variables st)) (space_variables F) = space_variables st"
    by (simp add: spF spS1)
  have "has_domain (st_model F) ((ps0 @ ps) ! (sum_list (map nat (take i (r # cs))) + t)) (0, sz)
      \<and> VarEq ((ps0 @ ps) ! (sum_list (map nat (take i (r # cs))) + t))
           (take (length (space_variables st) + i) (space_variables F))
           (seq_cum st + sum_list (take i (r # cs)) + int t)
          \<in> set (constraints (st_model F))"
    if i: "i < length (r # cs)" and t: "t < nat ((r # cs) ! i)" for i t
  proof (cases i)
    case 0
    then have t0: "t < nat r" using t by simp
    have "(ps0 @ ps) ! t = el_var ri rt st t" using t0 by (simp add: nth_append ps0_def)
    moreover have "has_domain (st_model F) (el_var ri rt st t) (0, sz)"
      using ext_has_domain[OF e] seq_step_el_facts(1)[OF t0] by (simp add: S1_def)
    moreover have "VarEq (el_var ri rt st t) (space_variables st) (seq_cum st + int t)
                     \<in> set (constraints (st_model F))"
      using ext_constraint[OF e] seq_step_el_facts(2)[OF t0] by (simp add: S1_def)
    ultimately show ?thesis using 0 first by simp
  next
    case (Suc j)
    then have j: "j < length cs" and tj: "t < nat (cs ! j)" using i t by simp_all
    from el j tj have A:
      "has_domain (st_model F) (ps ! (sum_list (map nat (take j cs)) + t)) (0, sz)
       \<and> VarEq (ps ! (sum_list (map nat (take j cs)) + t))
            (take (length (space_variables S1) + j) (space_variables F))
            (seq_cum S1 + sum_list (take j cs) + int t)
           \<in> set (constraints (st_model F))"
      by blast
    have idx: "(ps0 @ ps) ! (sum_list (map nat (take i (r # cs))) + t)
                 = ps ! (sum_list (map nat (take j cs)) + t)"
      by (simp add: Suc nth_append l0)
    have cum: "seq_cum st + sum_list (take i (r # cs)) + int t
                 = seq_cum S1 + sum_list (take j cs) + int t"
      by (simp add: Suc cumS1)
    have tk: "take (length (space_variables st) + i) (space_variables F)
                = take (length (space_variables S1) + j) (space_variables F)"
      by (simp add: Suc spS1)
    show ?thesis using A by (simp only: idx cum tk)
  qed
  then show ?case unfolding F_eq
    by (intro exI[of _ "ps0 @ ps"]) (simp add: sq sqS1 lp l0)
qed

lemma region_compiled_ext:
  assumes "ext m m'" "region_compiled m sz ri rt rvars cs gs ps"
  shows "region_compiled m' sz ri rt rvars cs gs ps"
  using assms(2) ext_has_domain[OF assms(1)] ext_constraint[OF assms(1)]
  unfolding region_compiled_def by blast

lemma sum_take_less:
  assumes "i < length cs" "t < nat (cs ! i)"
  shows "sum_list (map nat (take i cs)) + t < sum_list (map nat cs)"
proof -
  have "cs = take i cs @ cs ! i # drop (Suc i) cs" using assms(1) by (rule id_take_nth_drop)
  then have "sum_list (map nat cs)
               = sum_list (map nat (take i cs)) + nat (cs ! i) + sum_list (map nat (drop (Suc i) cs))"
    by (metis (no_types, lifting) add.assoc list.simps(9) map_append sum_list.Cons sum_list.append)
  then show ?thesis using assms(2) by simp
qed

lemma region_model_compiled:
  "region_compiled (fst (region_model sz ri rt rvars cs s)) sz ri rt rvars cs
     (region_gaps sz ri rt rvars cs s) (region_elements sz ri rt rvars cs s)"
proof -
  define m1 where "m1 = Add (SumEq rvars (sum_list cs)) (fst s)"
  define smax where "smax = sz - sum_list cs"
  define st0 where "st0 = run_init sz ri rt cs m1"
  define st where "st = run_loop sz ri rt cs m1"
  define M where "M = fst (region_model sz ri rt rvars cs s)"
  define g0 where "g0 = lead_gap ri rt m1"
  have st_eq: "st = fold (seq_step sz ri rt smax (length cs)) (enumerate 1 cs) st0"
    by (simp add: st_def run_loop_eq smax_def st0_def)
  have M_eq: "M = (st_model st)\<lparr>constraints := constraints (st_model st)
                       @ map (\<lambda>p. Element p rvars 1) (seq_variables st)
                       @ [SumEq (space_variables st) smax]\<rparr>"
    by (simp add: M_def region_model_fst Let_def st_def m1_def smax_def)
  have e_st: "ext (st_model st) M" by (simp add: M_eq ext_def)
  have e_0: "ext (st_model st0) (st_model st)" unfolding st_eq by (rule seq_loop_ext)
  have e_0M: "ext (st_model st0) M" by (rule ext_trans[OF e_0 e_st])
  have sp0: "space_variables st0 = [g0]" and sq0: "seq_variables st0 = []"
    and cum0: "seq_cum st0 = 0"
    by (simp_all add: st0_def run_init_def g0_def)
  have k: "1 + length cs = Suc (length cs)" by simp
  from seq_loop_gaps[OF k, of sz ri rt smax st0] obtain gs where
    sp: "space_variables st = g0 # gs" and lg: "length gs = length cs"
    and gd: "\<forall>i<length cs. has_domain (st_model st) (gs ! i)
                 (if 1 + i = length cs then 0 else 1, max 1 smax)
               \<and> Name (gs ! i) = SpaceName ri rt (1 + i)"
    unfolding st_eq[symmetric] sp0 by auto
  from seq_loop_elements[of sz ri rt smax "length cs" 1 cs st0] obtain ps where
    sq: "seq_variables st = ps" and lp: "length ps = sum_list (map nat cs)"
    and el: "\<forall>i<length cs. \<forall>t<nat (cs ! i).
            has_domain (st_model st) (ps ! (sum_list (map nat (take i cs)) + t)) (0, sz)
          \<and> VarEq (ps ! (sum_list (map nat (take i cs)) + t))
               (take (Suc i) (space_variables st)) (sum_list (take i cs) + int t)
              \<in> set (constraints (st_model st))"
    unfolding st_eq[symmetric] sp0 sq0 cum0 by auto
  have g0d: "has_domain M g0 (0, smax)"
    by (rule ext_has_domain[OF e_0M])
       (simp add: has_domain_def st0_def run_init_def g0_def lead_gap_def smax_def)
  have g0n: "Name g0 = SpaceName ri rt 0" by (simp add: g0_def lead_gap_def)
  have gaps: "has_domain M ((g0 # gs) ! i)
              (if i = 0 then (0, smax) else (if i = length cs then 0 else 1, max 1 smax))
          \<and> Name ((g0 # gs) ! i) = SpaceName ri rt i" if "i < length (g0 # gs)" for i
  proof (cases i)
    case 0 then show ?thesis using g0d g0n by simp
  next
    case (Suc j)
    then have "j < length cs" using that lg by simp
    with gd have "has_domain (st_model st) (gs ! j) (if 1 + j = length cs then 0 else 1, max 1 smax)"
      "Name (gs ! j) = SpaceName ri rt (1 + j)" by blast+
    then show ?thesis using ext_has_domain[OF e_st] Suc by simp
  qed
  have els: "has_domain M (ps ! (sum_list (map nat (take i cs)) + t)) (0, sz)
          \<and> VarEq (ps ! (sum_list (map nat (take i cs)) + t)) (take (Suc i) (g0 # gs))
               (sum_list (take i cs) + int t) \<in> set (constraints M)
          \<and> Element (ps ! (sum_list (map nat (take i cs)) + t)) rvars 1 \<in> set (constraints M)"
    if i: "i < length cs" and t: "t < nat (cs ! i)" for i t
  proof -
    let ?p = "ps ! (sum_list (map nat (take i cs)) + t)"
    from el i t have "has_domain (st_model st) ?p (0, sz)"
      "VarEq ?p (take (Suc i) (space_variables st)) (sum_list (take i cs) + int t)
         \<in> set (constraints (st_model st))" by blast+
    then have "has_domain M ?p (0, sz)"
      "VarEq ?p (take (Suc i) (g0 # gs)) (sum_list (take i cs) + int t) \<in> set (constraints M)"
      using ext_has_domain[OF e_st] ext_constraint[OF e_st] unfolding sp by blast+
    moreover have "?p \<in> set ps"
      using sum_take_less[OF i t] lp by simp
    then have "Element ?p rvars 1 \<in> set (constraints M)" by (simp add: M_eq sq)
    ultimately show ?thesis by blast
  qed
  have "SumEq (g0 # gs) smax \<in> set (constraints M)" by (simp add: M_eq sp)
  moreover have "SumEq rvars (sum_list cs) \<in> set (constraints M)"
    by (rule ext_constraint[OF e_0M]) (simp add: st0_def run_init_def m1_def Add_def)
  ultimately have "region_compiled M sz ri rt rvars cs (g0 # gs) ps"
    unfolding region_compiled_def smax_def[symmetric] using lg lp gaps els by simp
  then show ?thesis
    unfolding M_def region_gaps_def region_elements_def m1_def[symmetric] st_def[symmetric] sp sq .
qed

lemma board_3x3_row0_eq:
  "constraint_of ''row'' 0 [1, 1] (NonogramBoard_init 3) = Inr board_3x3_row0"
  by (subst constraint_of_wf[OF wf_init])
     (simp_all add: board_3x3_row0_def selected_position_def NonogramBoard_init_def)

lemma wf_board_3x3_row0: "wf_board board_3x3_row0"
  by (rule wf_constraint_of[OF wf_init board_3x3_row0_eq])

lemma board_3x3_row0_size: "board_size board_3x3_row0 = 3"
  by (simp add: board_3x3_row0_def NonogramBoard_init_def)

lemma board_3x3_row0_first:
  "regions board_3x3_row0 ! 0 = \<lparr>region = row_line 3 0, constraint = [1, 1]\<rparr>"
  "regions board_3x3_row0 \<noteq> []"
  by (simp_all add: board_3x3_row0_def regions_init board_lines_def new_Region_def
        upt_conv_Cons del: upt_Suc)

lemma cell_vars_nth2: "x < n \<Longrightarrow> y < n \<Longrightarrow> cell_vars n ! x ! y = cell_var n x y"
  by (simp add: cell_vars_def)

lemma region_vars_cells:
  assumes "\<forall>p\<in>set ps. coord_x p < n \<and> coord_y p < n"
  shows "map (\<lambda>p. cell_vars n ! coord_x p ! coord_y p) ps = region_vars n ps"
  using assms by (simp add: region_vars_def cell_vars_nth2)

lemma compile_regions:
  assumes "wf_board b" "compile b = Inr (m, cc, cr)" "r \<in> set (regions b)"
  shows "cc = cell_vars (nat (board_size b))
       \<and> ext (cells_model (nat (board_size b))) m
       \<and> map (\<lambda>p. cc ! coord_x p ! coord_y p) (region r) = region_vars (nat (board_size b)) (region r)
       \<and> int (length (region r)) = board_size b
       \<and> (\<exists>ri rt s1. ext (fst (region_model (board_size b) ri rt
                          (region_vars (nat (board_size b)) (region r)) (constraint r) s1)) m)"
proof -
  let ?n = "nat (board_size b)"
  from compile_wf[OF assms(1)] assms(2) have
    cc: "cc = cell_vars ?n" and ec: "ext (cells_model ?n) m"
    and rg: "\<forall>r\<in>set (regions b). \<exists>ri rt s1.
               ext (fst (region_model (board_size b) ri rt
                      (region_vars ?n (region r)) (constraint r) s1)) m"
    by auto
  have rng: "\<forall>p\<in>set (region r). coord_x p < ?n \<and> coord_y p < ?n"
    using wf_region_range[OF assms(1,3)] by blast
  have "length (region r) = ?n"
    using wf_good_region[OF assms(1,3)] by (simp add: good_region_def)
  moreover have "0 < ?n" using wf_length[OF assms(1)] assms(3) by (cases "?n") auto
  ultimately have "int (length (region r)) = board_size b" by simp
  then show ?thesis using cc ec rg assms(3) region_vars_cells[OF rng] by simp
qed

lemma compile_first:
  assumes "wf_board b" "0 < board_size b" "compile b = Inr (m, cc, cr)"
  shows "ext (fst (region_model (board_size b) 0 RowType
                     (region_vars (nat (board_size b)) (row_line (nat (board_size b)) 0))
                     (constraint (regions b ! 0)) (cells_model (nat (board_size b)), []))) m"
proof -
  let ?n = "nat (board_size b)"
  have n: "0 < ?n" using assms(2) by simp
  have len: "length (regions b) = 2 * ?n" by (rule wf_length[OF assms(1)])
  then obtain r0 rest where rs: "regions b = r0 # rest" using n by (cases "regions b") auto
  have r0: "region r0 = row_line ?n 0"
    using wf_region_nth[OF assms(1), of 0] n by (simp add: rs)
  define s1 where "s1 = region_model (board_size b) 0 RowType (region_vars ?n (row_line ?n 0))
                          (constraint r0) (cells_model ?n, [])"
  have step: "region_step (board_size b) (cell_vars ?n) r0 (cells_model ?n, []) = Inr s1"
    using region_step_row[OF n n r0] by (simp add: s1_def r0)
  have good: "\<forall>r\<in>set rest. good_region (board_size b) ?n r"
    using wf_good_region[OF assms(1)] by (simp add: rs)
  from foldE_regions[OF good, of s1] obtain s' where
    f: "foldE (region_step (board_size b) (cell_vars ?n)) rest s1 = Inr s'"
    and e: "ext (fst s1) (fst s')" by blast
  have "compile b = Inr (fst s', cell_vars ?n, snd s')"
    by (simp add: compile_def make_cells_eq cells_model_def[symmetric] rs step f bindE_def)
  then have "m = fst s'" using assms(3) by simp
  then show ?thesis using e by (simp add: s1_def rs)
qed

lemma gaps_3x3_row0:
  "region_gaps 3 0 RowType rvars [1, 1] (cells_model 3, []) =
     [\<lparr>Index = 9, Name = SpaceName 0 RowType 0\<rparr>,
      \<lparr>Index = 11, Name = SpaceName 0 RowType 1\<rparr>,
      \<lparr>Index = 13, Name = SpaceName 0 RowType 2\<rparr>]"
  by (simp add: region_gaps_def run_loop_eq run_init_def lead_gap_def seq_step_eq
        cells_model_def Add_def enumerate_eq_zip upt_conv_Cons del: upt_Suc)

lemma sum_nat_take:
  assumes "\<forall>c\<in>set cs. 0 < c"
  shows "sum_list (map nat (take i cs)) = nat (sum_list (take i cs))"
    and "sum_list (map nat cs) = nat (sum_list cs)"
proof -
  have "\<forall>x\<in>set (take i cs). 0 \<le> x" using assms by (force dest: in_set_takeD)
  from sum_list_nat[OF this] show "sum_list (map nat (take i cs)) = nat (sum_list (take i cs))"
    by linarith
  have "\<forall>x\<in>set cs. 0 \<le> x" using assms by force
  from sum_list_nat[OF this] show "sum_list (map nat cs) = nat (sum_list cs)" by linarith
qed

section \<open>The widths of the rendering\<close>

lemma maxE_Max: "xs \<noteq> [] \<Longrightarrow> maxE xs = Inr (Max (set xs))"
proof (cases xs)
  case Nil
  assume "xs \<noteq> []"
  with Nil show ?thesis by simp
next
  case (Cons a list)
  then show ?thesis using Max.set_eq_fold[of a list] by (simp add: maxE_def)
qed

lemma filter_mapE_total:
  assumes "\<And>x. x \<in> set xs \<Longrightarrow> P x = Inr (Q x)"
    and "\<And>x. x \<in> set xs \<Longrightarrow> Q x \<Longrightarrow> f x = Inr (g x)"
  shows "filter_mapE P f xs = Inr (map g (filter Q xs))"
  using assms by (induction xs) (simp_all add: bindE_def)

lemma filter_mapE_error:
  assumes "\<And>x. x \<in> set xs \<Longrightarrow> P x = Inr (Q x)"
    and "\<And>x. x \<in> set xs \<Longrightarrow> Q x \<Longrightarrow> f x = Inl e \<or> (\<exists>v. f x = Inr v)"
    and "\<exists>x\<in>set xs. Q x \<and> f x = Inl e"
  shows "filter_mapE P f xs = Inl e"
  using assms
proof (induction xs)
  case Nil then show ?case by simp
next
  case (Cons a xs)
  have Pa: "P a = Inr (Q a)" using Cons.prems(1) by simp
  show ?case
  proof (cases "Q a")
    case False
    then have "\<exists>x\<in>set xs. Q x \<and> f x = Inl e" using Cons.prems(3) by auto
    then have "filter_mapE P f xs = Inl e" using Cons.IH Cons.prems(1,2) by simp
    then show ?thesis using False Pa by (simp add: bindE_def)
  next
    case True
    from Cons.prems(2)[of a] True consider "f a = Inl e" | v where "f a = Inr v" by auto
    then show ?thesis
    proof cases
      case 1 then show ?thesis using True Pa by (simp add: bindE_def)
    next
      case 2
      then have "\<exists>x\<in>set xs. Q x \<and> f x = Inl e" using Cons.prems(3) by auto
      then have "filter_mapE P f xs = Inl e" using Cons.IH Cons.prems(1,2) by simp
      then show ?thesis using True Pa 2 by (simp add: bindE_def)
    qed
  qed
qed

lemma wf_is_column:
  assumes "wf_board b" "r \<in> set (regions b)"
  shows "is_column r = Inr (is_column r = Inr True)"
proof -
  let ?n = "nat (board_size b)"
  from assms(2) obtain k where k: "k < length (regions b)" "r = regions b ! k"
    by (auto simp: in_set_conv_nth)
  then have k2: "k < 2 * ?n" using wf_length[OF assms(1)] by simp
  then have n: "0 < ?n" by simp
  note reg = wf_region_nth[OF assms(1) k2, folded k(2)]
  show ?thesis
  proof (cases "even k")
    case True
    then show ?thesis using is_column_row_line[OF n, of r] reg by simp
  next
    case False
    then show ?thesis using is_column_column_line[OF n, of r] reg by simp
  qed
qed

lemma wf_has_column:
  assumes "wf_board b" "regions b \<noteq> []"
  shows "\<exists>r\<in>set (regions b). is_column r = Inr True"
proof -
  let ?n = "nat (board_size b)"
  have len: "length (regions b) = 2 * ?n" by (rule wf_length[OF assms(1)])
  then have n: "0 < ?n" using assms(2) by (cases "?n") auto
  then have k: "1 < 2 * ?n" by simp
  have "region (regions b ! 1) = column_line ?n 0" using wf_region_nth[OF assms(1) k] by simp
  then have "is_column (regions b ! 1) = Inr True" by (rule is_column_column_line[OF n])
  moreover have "regions b ! 1 \<in> set (regions b)" using k len by simp
  ultimately show ?thesis by blast
qed

lemma Max_of_maxima:
  assumes "xs \<noteq> []" "\<forall>x\<in>set xs. f x \<noteq> []"
  shows "Max (set (map (\<lambda>x. Max (set (f x))) xs)) = Max (set (concat (map f xs)))"
  using assms
proof (induction xs rule: list_nonempty_induct)
  case (single x)
  then show ?case by simp
next
  case (cons x xs)
  have ne: "set (concat (map f xs)) \<noteq> {}" using cons.hyps cons.prems by (cases xs) auto
  have "Max (set (concat (map f (x # xs)))) = max (Max (set (f x))) (Max (set (concat (map f xs))))"
    using cons.prems ne by (simp add: Max_Un)
  moreover have "Max (set (map (\<lambda>x. Max (set (f x))) (x # xs)))
                   = max (Max (set (f x))) (Max (set (map (\<lambda>x. Max (set (f x))) xs)))"
    using cons.hyps by simp
  ultimately show ?case using cons.IH cons.prems by simp
qed

lemma left_space_eq:
  "regions b \<noteq> [] \<Longrightarrow>
     left_space b = Inr (2 * Max (set (map (\<lambda>r. length (constraint r)) (regions b))))"
  by (simp add: left_space_def maxE_Max bindE_def)

lemma table_space_eq:
  assumes "wf_board b" "regions b \<noteq> []"
    and "\<forall>r\<in>set (regions b). is_column r = Inr True \<longrightarrow> constraint r \<noteq> []"
  shows "table_space b =
           Inr (length (str_int (Max (set (concat (map constraint
                  (filter (\<lambda>r. is_column r = Inr True) (regions b))))))))"
proof -
  let ?cols = "filter (\<lambda>r. is_column r = Inr True) (regions b)"
  have 1: "filter_mapE is_column (\<lambda>r. maxE (constraint r)) (regions b)
             = Inr (map (\<lambda>r. Max (set (constraint r))) ?cols)"
    by (rule filter_mapE_total) (use wf_is_column[OF assms(1)] assms(3) maxE_Max in auto)
  have ne: "?cols \<noteq> []" using wf_has_column[OF assms(1,2)] by (auto simp: filter_empty_conv)
  have all: "\<forall>r\<in>set ?cols. constraint r \<noteq> []" using assms(3) by simp
  have "map (\<lambda>r. Max (set (constraint r))) ?cols \<noteq> []" using ne by simp
  from maxE_Max[OF this]
  have 2: "maxE (map (\<lambda>r. Max (set (constraint r))) ?cols)
             = Inr (Max (set (concat (map constraint ?cols))))"
    unfolding Max_of_maxima[OF ne all] .
  show ?thesis unfolding table_space_def 1 by (simp only: bindE_def sum.case 2)
qed

lemma table_space_error:
  assumes "wf_board b" "\<exists>r\<in>set (regions b). is_column r = Inr True \<and> constraint r = []"
  shows "table_space b = Inl ValueError"
proof -
  have "filter_mapE is_column (\<lambda>r. maxE (constraint r)) (regions b) = Inl ValueError"
  proof (rule filter_mapE_error[where Q = "\<lambda>r. is_column r = Inr True"])
    show "is_column x = Inr (is_column x = Inr True)" if "x \<in> set (regions b)" for x
      using wf_is_column[OF assms(1) that] .
    show "maxE (constraint x) = Inl ValueError \<or> (\<exists>v. maxE (constraint x) = Inr v)" for x
      by (cases "constraint x") (simp_all add: maxE_def)
    show "\<exists>x\<in>set (regions b). is_column x = Inr True \<and> maxE (constraint x) = Inl ValueError"
      using assms(2) by (auto simp: maxE_def)
  qed
  then show ?thesis by (simp add: table_space_def bindE_def)
qed

lemma wf_board_10: "wf_board board_10"
  by (simp add: wf_board_def board_10_def board_lines_def comp_def NonogramBoard_init_def
        if_distrib[of region] cong: if_cong)

lemma print_board_table_error:
  assumes "regions b \<noteq> []" "table_space b = Inl e"
  shows "print_board b data = Inl e"
  using assms by (simp add: print_board_def Let_def left_space_eq bindE_def)

lemma print_board_2x2:
  "print_board (grid_2x2 [1] [2] [2] [1]) None =
     Inr ('' *** Nonogram 2x2 board ***'' @ newline @ newline
          @ ''   | 2 1 '' @ newline
          @ ''---------'' @ newline
          @ '' 1 | _ _'' @ newline
          @ '' 2 | _ _'' @ newline)"
  by code_simp

section \<open>A board with a solution\<close>

lemma solve_finds_solution:
  "\<exists>b'. solve (grid_2x2 [1] [] [1] []) = Inr b' \<and> solutions b' \<noteq> []"
proof -
  let ?b = "grid_2x2 [1] [] [1] []"
  from compile_wf[OF wf_grid_2x2, of "[1]" "[]" "[1]" "[]"] obtain m cc cr where
    c: "compile ?b = Inr (m, cc, cr)" by blast
  from solve_total[OF wf_grid_2x2, of "[1]" "[]" "[1]" "[]"] obtain b' where
    s: "solve ?b = Inr b'" by blast
  have "case compile ?b of Inl e \<Rightarrow> False
          | Inr t \<Rightarrow> satisfies (fst t) [1, 0, 0, 0, 0, 0, 1, 0, 0, 1, 2, 2]"
    by code_simp
  then have "satisfies m [1, 0, 0, 0, 0, 0, 1, 0, 0, 1, 2, 2]" by (simp add: c)
  then have "set (solutions b') \<noteq> {}" unfolding solve_solutions[OF c s] by blast
  then show ?thesis using s by auto
qed

section \<open>Why run lengths are taken positive\<close>

text \<open>
  A run length of zero creates no element variable and adds nothing to the sum of the
  cells, so the line that a solution draws for the constraint \<open>[0]\<close> is empty and its run
  sequence is \<open>[]\<close>.  The properties of solutions below are therefore stated for
  constraints of positive run lengths, which is what the data model calls a constraint.
\<close>

lemma zero_run_is_not_redrawn:
  "\<exists>b' s. solve (grid_2x2 [0] [] [] []) = Inr b' \<and> s \<in> set (solutions b')
      \<and> runs (line_of (solution_data (grid_2x2 [0] [] [] []) s) (regions (grid_2x2 [0] [] [] []) ! 0)) = []
      \<and> constraint (regions (grid_2x2 [0] [] [] []) ! 0) = [0]"
proof -
  let ?b = "grid_2x2 [0] [] [] []"
  let ?a = "[0, 0, 0, 0, 0, 2, 2, 2, 2] :: int list"
  from compile_wf[OF wf_grid_2x2, of "[0]" "[]" "[]" "[]"] obtain m cc cr where
    c: "compile ?b = Inr (m, cc, cr)" by blast
  from solve_total[OF wf_grid_2x2, of "[0]" "[]" "[]" "[]"] obtain b' where
    s: "solve ?b = Inr b'" by blast
  have "case compile ?b of Inl e \<Rightarrow> False
          | Inr t \<Rightarrow> satisfies (fst t) ?a
              \<and> runs (line_of (solution_data ?b
                     (map (\<lambda>v. (v, Value ?a v)) (concat (fst (snd t)) @ snd (snd t))))
                     (regions ?b ! 0)) = []"
    by code_simp
  then have sat: "satisfies m ?a"
    and r: "runs (line_of (solution_data ?b (map (\<lambda>v. (v, Value ?a v)) (concat cc @ cr)))
                   (regions ?b ! 0)) = []"
    by (simp_all add: c)
  have "map (\<lambda>v. (v, Value ?a v)) (concat cc @ cr) \<in> set (solutions b')"
    unfolding solve_solutions[OF c s] using sat by blast
  moreover have "constraint (regions ?b ! 0) = [0]" by (simp add: grid_2x2_def)
  ultimately show ?thesis using s r by blast
qed

section \<open>The claims\<close>

text \<open>
  Claim C1.  On a board whose regions cover the lines of the grid and whose constraints
  are sequences of positive run lengths satisfying the fit invariant, \<^verbatim>\<open>solve\<close> returns
  normally, and the grid that \<^verbatim>\<open>print_solutions\<close> rebuilds from any solution is a full
  \<open>N \<times> N\<close> grid in which, along every region (row or column), the maximal runs of
  filled cells are exactly the region's constraint, in order.
\<close>

theorem solutions_round_trip:
  assumes "wf_board b"
    and "\<forall>r\<in>set (regions b). (\<forall>c\<in>set (constraint r). 0 < c) \<and> fits (board_size b) (constraint r)"
  shows "\<exists>b'. solve b = Inr b'
           \<and> (\<forall>s\<in>set (solutions b').
                length (solution_data b s) = nat (board_size b)
              \<and> (\<forall>row\<in>set (solution_data b s). length row = nat (board_size b))
              \<and> (\<forall>r\<in>set (regions b). runs (line_of (solution_data b s) r) = constraint r))"
proof -
  have "\<forall>r\<in>set (regions b). \<forall>c\<in>set (constraint r). 0 < c" using assms(2) by blast
  from solve_sound[OF assms(1) this] show ?thesis by blast
qed

theorem solutions_round_trip_witness:
  "wf_board (grid_2x2 [1] [] [1] [])
   \<and> list_all (\<lambda>r. list_all (\<lambda>c. 0 < c) (constraint r)
                    \<and> fits (board_size (grid_2x2 [1] [] [1] [])) (constraint r))
         (regions (grid_2x2 [1] [] [1] []))
   \<and> (\<exists>b'. solve (grid_2x2 [1] [] [1] []) = Inr b'
           \<and> solutions b' \<noteq> []
           \<and> (\<forall>s\<in>set (solutions b').
                length (solution_data (grid_2x2 [1] [] [1] []) s)
                  = nat (board_size (grid_2x2 [1] [] [1] []))
              \<and> (\<forall>row\<in>set (solution_data (grid_2x2 [1] [] [1] []) s).
                    length row = nat (board_size (grid_2x2 [1] [] [1] [])))
              \<and> (\<forall>r\<in>set (regions (grid_2x2 [1] [] [1] [])).
                    runs (line_of (solution_data (grid_2x2 [1] [] [1] []) s) r) = constraint r)))"
proof -
  have h: "\<forall>r\<in>set (regions (grid_2x2 [1] [] [1] [])).
         (\<forall>c\<in>set (constraint r). 0 < c) \<and> fits (board_size (grid_2x2 [1] [] [1] [])) (constraint r)"
    by (simp add: grid_2x2_def fits_def)
  then have h': "list_all (\<lambda>r. list_all (\<lambda>c. 0 < c) (constraint r)
                    \<and> fits (board_size (grid_2x2 [1] [] [1] [])) (constraint r))
         (regions (grid_2x2 [1] [] [1] []))"
    by (simp add: list_all_iff)
  from solve_finds_solution obtain b0 where
    b0: "solve (grid_2x2 [1] [] [1] []) = Inr b0" "solutions b0 \<noteq> []" by blast
  show ?thesis
    using solutions_round_trip[OF wf_grid_2x2 h] wf_grid_2x2 h' b0 by auto
qed

text \<open>
  Claim C7.  When \<^verbatim>\<open>solve\<close> has returned on a board, a second call returns as well and
  stores the same solutions again: the same set, and as many (the stored list is
  replaced, not extended).  Neither call changes the size, the grid or the regions of
  the board.  Whatever solutions the board held before the first call play no part.
\<close>

theorem solve_idempotent:
  assumes "solve b = Inr b1"
  shows "\<exists>b2. solve b1 = Inr b2
           \<and> set (solutions b2) = set (solutions b1)
           \<and> length (solutions b2) = length (solutions b1)
           \<and> board b1 = board b \<and> regions b1 = regions b \<and> board_size b1 = board_size b
           \<and> board b2 = board b \<and> regions b2 = regions b \<and> board_size b2 = board_size b"
proof -
  from assms obtain m cc cr where c: "compile b = Inr (m, cc, cr)"
    and b1: "b1 = b\<lparr>solutions := map (\<lambda>a. map (\<lambda>v. (v, Value a v)) (concat cc @ cr))
               (filter (\<lambda>a. list_all (holds a) (constraints m)) (all_assignments m))\<rparr>"
    by (rule solve_cases)
  have c1: "compile b1 = Inr (m, cc, cr)" using c by (simp add: b1)
  have "solve b1 = Inr b1" unfolding solve_eq[OF c1] by (simp add: b1)
  then show ?thesis by (simp add: b1)
qed

theorem solve_idempotent_witness:
  "\<exists>b1. solve (grid_2x2 [1] [] [1] []) = Inr b1
      \<and> (\<exists>b2. solve b1 = Inr b2 \<and> set (solutions b2) = set (solutions b1)
             \<and> length (solutions b2) = length (solutions b1)
             \<and> board b2 = board (grid_2x2 [1] [] [1] [])
             \<and> regions b2 = regions (grid_2x2 [1] [] [1] []))"
proof -
  have "\<forall>r\<in>set (regions (grid_2x2 [1] [] [1] [])). \<forall>c\<in>set (constraint r). 0 < c"
    by (simp add: grid_2x2_def)
  from solve_sound[OF wf_grid_2x2 this] obtain b1 where
    s: "solve (grid_2x2 [1] [] [1] []) = Inr b1" by blast
  from solve_idempotent[OF s] s show ?thesis by blast
qed

text \<open>
  Claim C6, as the code has it.  \<^verbatim>\<open>NonogramBoard( size )\<close> never fails.  For every size
  it returns a board with a grid of \<open>N \<times> N\<close> empty cells and \<open>2 N\<close> regions with empty
  constraints, where \<open>N\<close> is the size, or zero when the size is not positive: the region at
  position \<open>2 i\<close> covers the line of fixed \<open>x = i\<close> and the region at \<open>2 i + 1\<close> the line
  of fixed \<open>y = i\<close>.  For a size of zero or less the grid and the list of regions are
  empty.
\<close>

theorem init_allocates:
  "board_size (NonogramBoard_init sz) = sz
   \<and> board (NonogramBoard_init sz) = replicate (nat sz) (replicate (nat sz) \<lparr>cell_value = False\<rparr>)
   \<and> length (regions (NonogramBoard_init sz)) = 2 * nat sz
   \<and> (\<forall>i<nat sz.
         regions (NonogramBoard_init sz) ! (2 * i)
           = \<lparr>region = row_line (nat sz) i, constraint = []\<rparr>
       \<and> regions (NonogramBoard_init sz) ! (2 * i + 1)
           = \<lparr>region = column_line (nat sz) i, constraint = []\<rparr>)
   \<and> solutions (NonogramBoard_init sz) = []
   \<and> (sz \<le> 0 \<longrightarrow> board (NonogramBoard_init sz) = [] \<and> regions (NonogramBoard_init sz) = [])"
proof -
  have len: "length (regions (NonogramBoard_init sz)) = 2 * nat sz"
    by (simp add: regions_init board_lines_def)
  have nth: "regions (NonogramBoard_init sz) ! (2 * i) = \<lparr>region = row_line (nat sz) i, constraint = []\<rparr>
       \<and> regions (NonogramBoard_init sz) ! (2 * i + 1) = \<lparr>region = column_line (nat sz) i, constraint = []\<rparr>"
    if "i < nat sz" for i
    using that by (simp add: regions_init board_lines_def new_Region_def)
  have "sz \<le> 0 \<Longrightarrow> regions (NonogramBoard_init sz) = []" using len by simp
  then show ?thesis using len nth
    by (simp add: NonogramBoard_init_def new_Cell_def)
qed

theorem init_allocates_witness:
  "regions (NonogramBoard_init 2) ! 2 = \<lparr>region = row_line 2 1, constraint = []\<rparr>
   \<and> regions (NonogramBoard_init 2) ! 3 = \<lparr>region = column_line 2 1, constraint = []\<rparr>
   \<and> length (regions (NonogramBoard_init 2)) = 4
   \<and> board (NonogramBoard_init (- 1)) = [] \<and> regions (NonogramBoard_init (- 1)) = []"
proof -
  have "(1::nat) < nat 2" by simp
  with init_allocates[of 2] have
    "regions (NonogramBoard_init 2) ! (2 * 1) = \<lparr>region = row_line (nat 2) 1, constraint = []\<rparr>
     \<and> regions (NonogramBoard_init 2) ! (2 * 1 + 1) = \<lparr>region = column_line (nat 2) 1, constraint = []\<rparr>"
    by blast
  moreover have "length (regions (NonogramBoard_init 2)) = 4"
    using init_allocates[of 2] by simp
  moreover have "board (NonogramBoard_init (- 1)) = [] \<and> regions (NonogramBoard_init (- 1)) = []"
    using init_allocates[of "- 1"] by simp
  ultimately show ?thesis by simp
qed

text \<open>
  Against claim C6 as stated: sizes \<open>0\<close> and \<open>- 3\<close> raise nothing, a board is created.
\<close>

theorem init_nonpositive_counterexample:
  "NonogramBoard_init 0 = \<lparr>board_size = 0, board = [], regions = [], solutions = []\<rparr>
   \<and> NonogramBoard_init (- 3) = \<lparr>board_size = - 3, board = [], regions = [], solutions = []\<rparr>"
  by (simp add: NonogramBoard_init_def)

text \<open>
  Claim C8, at the input where the code departs from it.  On the board of side one the
  region at position \<open>0\<close> is the one built as row 0 and the region at position \<open>1\<close> the
  one built as column 0.  \<^verbatim>\<open>constraint_of( "column", 0, [ 1 ] )\<close> does not replace the
  constraint of the column's region: it writes the region at position \<open>0\<close> and leaves
  position \<open>1\<close> as it was.  So a constraint written for the row is lost to a later write
  for the column, which here gives back the new board, and after the row and the column
  have both been given \<open>[1]\<close> the column's region is still empty and \<^verbatim>\<open>solve\<close> finds no
  solution, although the single filled cell satisfies both.
\<close>

theorem column_write_on_one_cell_board:
  "regions (NonogramBoard_init 1)
     = [\<lparr>region = row_line 1 0, constraint = []\<rparr>, \<lparr>region = column_line 1 0, constraint = []\<rparr>]
   \<and> constraint_of ''column'' 0 [1] (NonogramBoard_init 1)
     = Inr ((NonogramBoard_init 1)\<lparr>regions :=
              [\<lparr>region = row_line 1 0, constraint = [1]\<rparr>,
               \<lparr>region = column_line 1 0, constraint = []\<rparr>]\<rparr>)
   \<and> bindE (constraint_of ''row'' 0 [1] (NonogramBoard_init 1)) (constraint_of ''column'' 0 [])
     = Inr (NonogramBoard_init 1)
   \<and> bindE (bindE (constraint_of ''row'' 0 [1] (NonogramBoard_init 1))
               (constraint_of ''column'' 0 [1]))
        (\<lambda>b. bindE (solve b) (\<lambda>b'. Inr (map constraint (regions b'), solutions b')))
     = Inr ([[1], []], [])"
  by code_simp




text \<open>
  Claim C4.  On a well-formed board the model compiles, and when no assignment satisfies
  it \<^verbatim>\<open>solve\<close> returns normally and the stored list of solutions is empty.  In
  particular the board of side two with rows \<open>[2]\<close>, \<open>[2]\<close> and columns \<open>[1]\<close>, \<open>[1]\<close>,
  built by four calls of \<^verbatim>\<open>constraint_of\<close>, has no solution.
\<close>

theorem unsatisfiable_is_empty:
  "(wf_board b \<longrightarrow>
      (\<exists>m cc cr. compile b = Inr (m, cc, cr)
         \<and> ((\<forall>a. \<not> satisfies m a) \<longrightarrow> solve b = Inr (b\<lparr>solutions := []\<rparr>))))
   \<and> (\<exists>b2. board_2x2 [2] [2] [1] [1] = Inr b2 \<and> solve b2 = Inr (b2\<lparr>solutions := []\<rparr>))"
proof (intro conjI impI)
  assume wf: "wf_board b"
  from compile_wf[OF wf] obtain m cr where
    c: "compile b = Inr (m, cell_vars (nat (board_size b)), cr)" by blast
  have "solve b = Inr (b\<lparr>solutions := []\<rparr>)" if "\<forall>a. \<not> satisfies m a"
  proof -
    have "filter (\<lambda>a. list_all (holds a) (constraints m)) (all_assignments m) = []"
      using that by (auto simp: filter_empty_conv satisfies_def in_all_assignments)
    then show ?thesis by (simp add: solve_eq[OF c])
  qed
  then show "\<exists>m cc cr. compile b = Inr (m, cc, cr)
         \<and> ((\<forall>a. \<not> satisfies m a) \<longrightarrow> solve b = Inr (b\<lparr>solutions := []\<rparr>))"
    using c by blast
next
  show "\<exists>b2. board_2x2 [2] [2] [1] [1] = Inr b2 \<and> solve b2 = Inr (b2\<lparr>solutions := []\<rparr>)"
    using board_2x2_eq solve_unsat_2x2 by blast
qed

theorem unsatisfiable_is_empty_witness:
  "wf_board (grid_2x2 [2] [2] [1] [1])
   \<and> (\<exists>m cc cr. compile (grid_2x2 [2] [2] [1] [1]) = Inr (m, cc, cr)
         \<and> (\<forall>a. \<not> satisfies m a)
         \<and> solve (grid_2x2 [2] [2] [1] [1]) = Inr ((grid_2x2 [2] [2] [1] [1])\<lparr>solutions := []\<rparr>))"
proof -
  let ?b = "grid_2x2 [2] [2] [1] [1]"
  from unsatisfiable_is_empty[of ?b] wf_grid_2x2 obtain m cc cr where
    c: "compile ?b = Inr (m, cc, cr)"
    and i: "(\<forall>a. \<not> satisfies m a) \<longrightarrow> solve ?b = Inr (?b\<lparr>solutions := []\<rparr>)"
    by blast
  have "set (solutions (?b\<lparr>solutions := []\<rparr>))
          = (\<lambda>a. map (\<lambda>v. (v, Value a v)) (concat cc @ cr)) ` {a. satisfies m a}"
    by (rule solve_solutions[OF c solve_unsat_2x2])
  then have u: "\<forall>a. \<not> satisfies m a" by simp
  with i c wf_grid_2x2 show ?thesis by blast
qed

text \<open>
  Claim C2, as the code has it.  The slack of a region is \<open>N - \<Sum>r\<close>, the number of
  empty cells of the line; the mandatory gaps are not subtracted.  For every region of a
  well-formed board the compiled model has gap variables \<open>g\<^sub>0 \<dots> g\<^sub>k\<close>, named
  \<^verbatim>\<open>space_0\<close> to \<^verbatim>\<open>space_k\<close>: \<open>g\<^sub>0\<close> has the domain \<open>[0, N - \<Sum>r]\<close> (which is \<open>[0, N]\<close> when
  \<open>k = 0\<close>), each \<open>g\<^sub>i\<close> with \<open>0 < i < k\<close> the domain \<open>[1, max 1 (N - \<Sum>r)]\<close>, the last gap
  \<open>g\<^sub>k\<close> with \<open>k > 0\<close> the domain \<open>[0, max 1 (N - \<Sum>r)]\<close>, and the model constrains the sum
  of \<open>g\<^sub>0 \<dots> g\<^sub>k\<close> to equal \<open>N - \<Sum>r\<close>, so every satisfying assignment gives that sum.
\<close>

theorem gap_domains:
  assumes "wf_board b" "compile b = Inr (m, cc, cr)" "r \<in> set (regions b)"
  shows "\<exists>ri rt gs.
           length gs = length (constraint r) + 1
         \<and> (\<forall>i<length gs. Name (gs ! i) = SpaceName ri rt i)
         \<and> has_domain m (gs ! 0) (0, board_size b - sum_list (constraint r))
         \<and> (\<forall>i. 0 < i \<and> i < length (constraint r) \<longrightarrow>
               has_domain m (gs ! i) (1, max 1 (board_size b - sum_list (constraint r))))
         \<and> (0 < length (constraint r) \<longrightarrow>
               has_domain m (gs ! length (constraint r))
                 (0, max 1 (board_size b - sum_list (constraint r))))
         \<and> SumEq gs (board_size b - sum_list (constraint r)) \<in> set (constraints m)
         \<and> (\<forall>a. satisfies m a \<longrightarrow>
               sum_list (map (Value a) gs) = board_size b - sum_list (constraint r))"
proof -
  let ?n = "nat (board_size b)"
  let ?rv = "region_vars ?n (region r)"
  from compile_regions[OF assms] obtain ri rt s1 where
    e: "ext (fst (region_model (board_size b) ri rt ?rv (constraint r) s1)) m" by blast
  define gs where "gs = region_gaps (board_size b) ri rt ?rv (constraint r) s1"
  define ps where "ps = region_elements (board_size b) ri rt ?rv (constraint r) s1"
  have rc: "region_compiled m (board_size b) ri rt ?rv (constraint r) gs ps"
    unfolding gs_def ps_def by (rule region_compiled_ext[OF e region_model_compiled])
  have len: "length gs = length (constraint r) + 1" using rc by (simp add: region_compiled_def)
  have all: "\<forall>i<length gs.
            has_domain m (gs ! i)
              (if i = 0 then (0, board_size b - sum_list (constraint r))
               else (if i = length (constraint r) then 0 else 1,
                     max 1 (board_size b - sum_list (constraint r))))
          \<and> Name (gs ! i) = SpaceName ri rt i"
    using rc unfolding region_compiled_def by blast
  have dom: "has_domain m (gs ! i)
              (if i = 0 then (0, board_size b - sum_list (constraint r))
               else (if i = length (constraint r) then 0 else 1,
                     max 1 (board_size b - sum_list (constraint r))))"
    if "i < length gs" for i using all that by blast
  have s: "SumEq gs (board_size b - sum_list (constraint r)) \<in> set (constraints m)"
    using rc by (simp add: region_compiled_def)
  have sem: "sum_list (map (Value a) gs) = board_size b - sum_list (constraint r)"
    if "satisfies m a" for a
  proof -
    have "holds a (SumEq gs (board_size b - sum_list (constraint r)))"
      using meets_holds[OF satisfies_meets[OF that] s] .
    then show ?thesis by simp
  qed
  show ?thesis
  proof (intro exI[of _ ri] exI[of _ rt] exI[of _ gs] conjI allI impI)
    show "length gs = length (constraint r) + 1" by (rule len)
    show "Name (gs ! i) = SpaceName ri rt i" if "i < length gs" for i using all that by blast
    show "has_domain m (gs ! 0) (0, board_size b - sum_list (constraint r))"
      using dom[of 0] len by simp
    show "has_domain m (gs ! i) (1, max 1 (board_size b - sum_list (constraint r)))"
      if "0 < i \<and> i < length (constraint r)" for i
      using dom[of i] that len by simp
    show "has_domain m (gs ! length (constraint r))
            (0, max 1 (board_size b - sum_list (constraint r)))"
      if "0 < length (constraint r)"
      using dom[of "length (constraint r)"] that len by simp
    show "SumEq gs (board_size b - sum_list (constraint r)) \<in> set (constraints m)" by (rule s)
    show "sum_list (map (Value a) gs) = board_size b - sum_list (constraint r)"
      if "satisfies m a" for a using sem that .
  qed
qed

theorem gap_domains_witness:
  "wf_board board_3x3_row0
   \<and> (\<exists>m cc cr. compile board_3x3_row0 = Inr (m, cc, cr)
        \<and> (\<exists>ri rt gs. length gs = 3
              \<and> Name (gs ! 0) = SpaceName ri rt 0
              \<and> has_domain m (gs ! 0) (0, 1)
              \<and> has_domain m (gs ! 1) (1, 1)
              \<and> has_domain m (gs ! 2) (0, 1)
              \<and> SumEq gs 1 \<in> set (constraints m)))"
proof -
  let ?r = "\<lparr>region = row_line 3 0, constraint = [1, 1]\<rparr>"
  from compile_wf[OF wf_board_3x3_row0] obtain m cc cr where
    c: "compile board_3x3_row0 = Inr (m, cc, cr)" by blast
  have r: "?r \<in> set (regions board_3x3_row0)"
    using board_3x3_row0_first nth_mem[of 0 "regions board_3x3_row0"] by simp
  have "\<exists>ri rt gs. length gs = 3 \<and> (\<forall>i<length gs. Name (gs ! i) = SpaceName ri rt i)
          \<and> has_domain m (gs ! 0) (0, 1)
          \<and> (\<forall>i. 0 < i \<and> i < 2 \<longrightarrow> has_domain m (gs ! i) (1, 1))
          \<and> has_domain m (gs ! 2) (0, 1)
          \<and> SumEq gs 1 \<in> set (constraints m)
          \<and> (\<forall>a. satisfies m a \<longrightarrow> sum_list (map (Value a) gs) = 1)"
    using gap_domains[OF wf_board_3x3_row0 c r]
    by (simp add: board_3x3_row0_size numeral_3_eq_3 numeral_2_eq_2)
  then obtain ri rt gs where
    g: "length gs = 3" "\<forall>i<length gs. Name (gs ! i) = SpaceName ri rt i"
      "has_domain m (gs ! 0) (0, 1)"
      "\<forall>i. 0 < i \<and> i < 2 \<longrightarrow> has_domain m (gs ! i) (1, 1)"
      "has_domain m (gs ! 2) (0, 1)"
      "SumEq gs 1 \<in> set (constraints m)"
    by blast
  have "Name (gs ! 0) = SpaceName ri rt 0" "has_domain m (gs ! 1) (1, 1)"
    using g(1,2,4) by simp_all
  with g c wf_board_3x3_row0 show ?thesis by blast
qed

text \<open>
  Against claim C2 as stated: on a board of side three, row 0 with runs \<open>[1, 1]\<close> fits,
  and the claim's slack \<open>N - \<Sum>r - (k - 1)\<close> is \<open>0\<close>; yet the compiled model gives the
  leading gap of that row the domain \<open>[0, 1]\<close> and constrains the three gaps to sum to \<open>1\<close>.
\<close>

theorem slack_counterexample:
  "\<exists>m cc cr.
      constraint_of ''row'' 0 [1, 1] (NonogramBoard_init 3) = Inr board_3x3_row0
    \<and> fits 3 [1, 1]
    \<and> compile board_3x3_row0 = Inr (m, cc, cr)
    \<and> has_domain m \<lparr>Index = 9, Name = SpaceName 0 RowType 0\<rparr> (0, 1)
    \<and> SumEq [\<lparr>Index = 9, Name = SpaceName 0 RowType 0\<rparr>,
              \<lparr>Index = 11, Name = SpaceName 0 RowType 1\<rparr>,
              \<lparr>Index = 13, Name = SpaceName 0 RowType 2\<rparr>] 1 \<in> set (constraints m)
    \<and> (3::int) - sum_list [1, 1] - (int (length [1::int, 1]) - 1) = 0"
proof -
  from compile_wf[OF wf_board_3x3_row0] obtain m cc cr where
    c: "compile board_3x3_row0 = Inr (m, cc, cr)" by blast
  let ?rv = "region_vars 3 (row_line 3 0)"
  have "ext (fst (region_model 3 0 RowType ?rv [1, 1] (cells_model 3, []))) m"
    using compile_first[OF wf_board_3x3_row0 _ c]
    by (simp add: board_3x3_row0_size board_3x3_row0_first)
  from region_compiled_ext[OF this region_model_compiled]
  have rc: "region_compiled m 3 0 RowType ?rv [1, 1]
              [\<lparr>Index = 9, Name = SpaceName 0 RowType 0\<rparr>,
               \<lparr>Index = 11, Name = SpaceName 0 RowType 1\<rparr>,
               \<lparr>Index = 13, Name = SpaceName 0 RowType 2\<rparr>]
              (region_elements 3 0 RowType ?rv [1, 1] (cells_model 3, []))"
    by (simp add: gaps_3x3_row0)
  then have "has_domain m \<lparr>Index = 9, Name = SpaceName 0 RowType 0\<rparr> (0, 1)"
    unfolding region_compiled_def by force
  moreover have "SumEq [\<lparr>Index = 9, Name = SpaceName 0 RowType 0\<rparr>,
              \<lparr>Index = 11, Name = SpaceName 0 RowType 1\<rparr>,
              \<lparr>Index = 13, Name = SpaceName 0 RowType 2\<rparr>] 1 \<in> set (constraints m)"
    using rc unfolding region_compiled_def by simp
  ultimately show ?thesis using c board_3x3_row0_eq by (auto simp: fits_def)
qed

text \<open>
  Claim C3.  For every region of a well-formed board whose runs are positive, the
  compiled model has gap variables \<open>gs\<close> (those of the gap sum) and element variables
  \<open>ps\<close>, one for each offset \<open>t\<close> of each run \<open>i\<close>, at position \<open>\<Sum>\<^sub>j\<^sub><\<^sub>i r\<^sub>j + t\<close> of \<open>ps\<close>.
  The model holds the equation that this variable equals the sum of the gaps
  \<open>g\<^sub>0 \<dots> g\<^sub>i\<close> before the run (with runs counted from one, \<open>g\<^sub>0 \<dots> g\<^sub>i\<^sub>-\<^sub>1\<close>) plus the
  preceding run lengths plus \<open>t\<close>; the element constraint that the region's cell at the
  variable's value is \<open>1\<close>; and the equation that the region's cells sum to \<open>\<Sum>r\<close>.  Hence in
  every satisfying assignment a cell of the region is filled exactly when its index is
  the value of some element variable.
\<close>

theorem position_variables:
  assumes "wf_board b" "compile b = Inr (m, cc, cr)" "r \<in> set (regions b)"
    and "\<forall>c\<in>set (constraint r). 0 < c"
  shows "\<exists>gs ps.
           length gs = length (constraint r) + 1
         \<and> SumEq gs (board_size b - sum_list (constraint r)) \<in> set (constraints m)
         \<and> length ps = nat (sum_list (constraint r))
         \<and> (\<forall>i<length (constraint r). \<forall>t<nat (constraint r ! i).
               VarEq (ps ! (nat (sum_list (take i (constraint r))) + t)) (take (Suc i) gs)
                     (sum_list (take i (constraint r)) + int t) \<in> set (constraints m)
             \<and> Element (ps ! (nat (sum_list (take i (constraint r))) + t))
                     (map (\<lambda>p. cc ! coord_x p ! coord_y p) (region r)) 1 \<in> set (constraints m))
         \<and> SumEq (map (\<lambda>p. cc ! coord_x p ! coord_y p) (region r)) (sum_list (constraint r))
              \<in> set (constraints m)
         \<and> (\<forall>a. satisfies m a \<longrightarrow>
               (\<forall>t<length (region r).
                  Value a (cc ! coord_x (region r ! t) ! coord_y (region r ! t)) = 1
                    \<longleftrightarrow> (\<exists>p\<in>set ps. Value a p = int t)))"
proof -
  let ?n = "nat (board_size b)"
  let ?rv = "region_vars ?n (region r)"
  let ?cs = "constraint r"
  from compile_regions[OF assms(1-3)] obtain ri rt s1 where
    cc: "cc = cell_vars ?n" and ec: "ext (cells_model ?n) m"
    and rv: "map (\<lambda>p. cc ! coord_x p ! coord_y p) (region r) = ?rv"
    and len: "int (length (region r)) = board_size b"
    and e: "ext (fst (region_model (board_size b) ri rt ?rv ?cs s1)) m" by blast
  define gs where "gs = region_gaps (board_size b) ri rt ?rv ?cs s1"
  define ps where "ps = region_elements (board_size b) ri rt ?rv ?cs s1"
  have rc: "region_compiled m (board_size b) ri rt ?rv ?cs gs ps"
    unfolding gs_def ps_def by (rule region_compiled_ext[OF e region_model_compiled])
  have els: "VarEq (ps ! (nat (sum_list (take i ?cs)) + t)) (take (Suc i) gs)
                     (sum_list (take i ?cs) + int t) \<in> set (constraints m)
             \<and> Element (ps ! (nat (sum_list (take i ?cs)) + t)) ?rv 1 \<in> set (constraints m)"
    if "i < length ?cs" "t < nat (?cs ! i)" for i t
    using rc that unfolding region_compiled_def sum_nat_take(1)[OF assms(4)] by blast
  have sem: "Value a (cc ! coord_x (region r ! t) ! coord_y (region r ! t)) = 1
               \<longleftrightarrow> (\<exists>p\<in>set ps. Value a p = int t)"
    if sat: "satisfies m a" and t: "t < length (region r)" for a t
  proof -
    have ma: "meets m a" by (rule satisfies_meets[OF sat])
    have rng: "\<forall>p\<in>set (region r). coord_x p < ?n \<and> coord_y p < ?n"
      using wf_region_range[OF assms(1,3)] by blast
    have bits: "\<forall>v\<in>set ?rv. Value a v = 0 \<or> Value a v = 1"
      using rng cell_bits[OF ma ec] by (auto simp: region_vars_def)
    have l: "int (length ?rv) = board_size b" using len by simp
    from region_model_sem[OF ext_meets[OF e ma] assms(4) bits l]
    have "\<forall>t<length ?rv. Value a (?rv ! t) = 1 \<longleftrightarrow> (\<exists>p\<in>set ps. Value a p = int t)"
      unfolding ps_def region_elements_def by blast
    then have A: "Value a (?rv ! t) = 1 \<longleftrightarrow> (\<exists>p\<in>set ps. Value a p = int t)"
      using t by simp
    have B: "?rv ! t = cc ! coord_x (region r ! t) ! coord_y (region r ! t)"
      using t unfolding rv[symmetric] by simp
    from A[unfolded B] show ?thesis .
  qed
  show ?thesis
  proof (rule exI[of _ gs], rule exI[of _ ps], intro conjI allI impI)
    show "length gs = length ?cs + 1" using rc by (simp add: region_compiled_def)
    show "SumEq gs (board_size b - sum_list ?cs) \<in> set (constraints m)"
      using rc by (simp add: region_compiled_def)
    show "length ps = nat (sum_list ?cs)"
      using rc sum_nat_take(2)[OF assms(4)] by (simp add: region_compiled_def)
    show "VarEq (ps ! (nat (sum_list (take i ?cs)) + t)) (take (Suc i) gs)
                     (sum_list (take i ?cs) + int t) \<in> set (constraints m)"
      if "i < length ?cs" "t < nat (?cs ! i)" for i t using els that by blast
    show "Element (ps ! (nat (sum_list (take i ?cs)) + t))
            (map (\<lambda>p. cc ! coord_x p ! coord_y p) (region r)) 1 \<in> set (constraints m)"
      if "i < length ?cs" "t < nat (?cs ! i)" for i t using els that unfolding rv by blast
    show "SumEq (map (\<lambda>p. cc ! coord_x p ! coord_y p) (region r)) (sum_list ?cs)
            \<in> set (constraints m)"
      using rc unfolding rv by (simp add: region_compiled_def)
    show "Value a (cc ! coord_x (region r ! t) ! coord_y (region r ! t)) = 1
               \<longleftrightarrow> (\<exists>p\<in>set ps. Value a p = int t)"
      if "satisfies m a" "t < length (region r)" for a t using sem that by blast
  qed
qed

theorem position_variables_witness:
  "wf_board board_3x3_row0
   \<and> list_all (\<lambda>c. 0 < c) (constraint \<lparr>region = row_line 3 0, constraint = [1, 1]\<rparr>)
   \<and> (\<exists>m cc cr. compile board_3x3_row0 = Inr (m, cc, cr)
        \<and> (\<exists>gs ps. length gs = 3 \<and> length ps = 2
              \<and> VarEq (ps ! 0) (take 1 gs) 0 \<in> set (constraints m)
              \<and> VarEq (ps ! 1) (take 2 gs) 1 \<in> set (constraints m)
              \<and> Element (ps ! 0) (cc ! 0) 1 \<in> set (constraints m)
              \<and> Element (ps ! 1) (cc ! 0) 1 \<in> set (constraints m)
              \<and> SumEq (cc ! 0) 2 \<in> set (constraints m)))"
proof -
  let ?r = "\<lparr>region = row_line 3 0, constraint = [1, 1]\<rparr>"
  from compile_wf[OF wf_board_3x3_row0] obtain m cr where
    c: "compile board_3x3_row0 = Inr (m, cell_vars 3, cr)"
    by (auto simp: board_3x3_row0_size)
  have r: "?r \<in> set (regions board_3x3_row0)"
    using board_3x3_row0_first nth_mem[of 0 "regions board_3x3_row0"] by simp
  have pos: "\<forall>c\<in>set (constraint ?r). 0 < c" by simp
  have row: "map (\<lambda>p. cell_vars 3 ! coord_x p ! coord_y p) (row_line 3 0) = cell_vars 3 ! 0"
    by (simp add: row_line_def cell_vars_def upt_conv_Cons del: upt_Suc)
  from position_variables[OF wf_board_3x3_row0 c r pos] obtain gs ps where
    g: "length gs = length (constraint ?r) + 1"
      "length ps = nat (sum_list (constraint ?r))"
      "\<forall>i<length (constraint ?r). \<forall>t<nat (constraint ?r ! i).
               VarEq (ps ! (nat (sum_list (take i (constraint ?r))) + t)) (take (Suc i) gs)
                     (sum_list (take i (constraint ?r)) + int t) \<in> set (constraints m)
             \<and> Element (ps ! (nat (sum_list (take i (constraint ?r))) + t))
                     (map (\<lambda>p. cell_vars 3 ! coord_x p ! coord_y p) (region ?r)) 1
                  \<in> set (constraints m)"
      "SumEq (map (\<lambda>p. cell_vars 3 ! coord_x p ! coord_y p) (region ?r)) (sum_list (constraint ?r))
              \<in> set (constraints m)"
    by blast
  from g(3)[rule_format, of 0 0] g(3)[rule_format, of 1 0]
  have "VarEq (ps ! 0) (take 1 gs) 0 \<in> set (constraints m)"
    "VarEq (ps ! 1) (take 2 gs) 1 \<in> set (constraints m)"
    "Element (ps ! 0) (cell_vars 3 ! 0) 1 \<in> set (constraints m)"
    "Element (ps ! 1) (cell_vars 3 ! 0) 1 \<in> set (constraints m)"
    by (simp_all add: row numeral_2_eq_2)
  moreover have "length gs = 3" "length ps = 2" "SumEq (cell_vars 3 ! 0) 2 \<in> set (constraints m)"
    using g(1,2,4) by (simp_all add: row)
  ultimately show ?thesis using c wf_board_3x3_row0 by auto
qed

text \<open>
  Claim C9, as the code has it.  On a well-formed board with at least one region and every
  column constraint non-empty, the left-margin width is twice the largest number of runs
  in any region (row or column), and the column alignment width is the length of the
  decimal numeral of the largest run length among the constraints of the column regions
  only: the row constraints play no part in it.
\<close>

theorem print_widths:
  assumes "wf_board b" "regions b \<noteq> []"
    and "\<forall>r\<in>set (regions b). is_column r = Inr True \<longrightarrow> constraint r \<noteq> []"
  shows "left_space b = Inr (2 * Max (set (map (\<lambda>r. length (constraint r)) (regions b))))
       \<and> table_space b =
           Inr (length (str_int (Max (set (concat (map constraint
                  (filter (\<lambda>r. is_column r = Inr True) (regions b))))))))"
  using left_space_eq[OF assms(2)] table_space_eq[OF assms] by simp

theorem print_widths_witness:
  "wf_board board_10 \<and> regions board_10 \<noteq> []
   \<and> list_all (\<lambda>r. is_column r \<noteq> Inr True \<or> constraint r \<noteq> []) (regions board_10)
   \<and> left_space board_10 = Inr 2 \<and> table_space board_10 = Inr 1"
proof -
  have ne: "regions board_10 \<noteq> []" by (simp add: board_10_def)
  have cols: "list_all (\<lambda>r. is_column r \<noteq> Inr True \<or> constraint r \<noteq> []) (regions board_10)"
    by code_simp
  then have h: "\<forall>r\<in>set (regions board_10). is_column r = Inr True \<longrightarrow> constraint r \<noteq> []"
    by (auto simp: list_all_iff)
  have l: "2 * Max (set (map (\<lambda>r. length (constraint r)) (regions board_10))) = 2"
    by code_simp
  have t: "length (str_int (Max (set (concat (map constraint
                  (filter (\<lambda>r. is_column r = Inr True) (regions board_10))))))) = 1"
    by code_simp
  from print_widths[OF wf_board_10 ne h, unfolded l t] wf_board_10 ne cols
  show ?thesis by blast
qed

text \<open>
  Against claim C9 as stated: on the board of side ten whose row 0 asks for a run of ten
  and whose columns ask for runs of one, every constraint fits, the largest run length
  among all constraints is \<open>10\<close>, a numeral of length two, and the column alignment width
  is one.
\<close>

theorem table_space_counterexample:
  "wf_board board_10
   \<and> list_all (\<lambda>r. fits (board_size board_10) (constraint r) \<and> list_all (\<lambda>c. 0 < c) (constraint r))
        (regions board_10)
   \<and> table_space board_10 = Inr 1
   \<and> length (str_int (Max (set (concat (map constraint (regions board_10)))))) = 2"
proof -
  have "list_all (\<lambda>r. fits (board_size board_10) (constraint r) \<and> list_all (\<lambda>c. 0 < c) (constraint r))
        (regions board_10)" by code_simp
  moreover have "table_space board_10 = Inr 1" by code_simp
  moreover have "length (str_int (Max (set (concat (map constraint (regions board_10)))))) = 2"
    by code_simp
  ultimately show ?thesis using wf_board_10 by simp
qed

text \<open>
  Claim C10.  On a well-formed board in which some column region has an empty run
  sequence, \<^verbatim>\<open>print\<close> raises \<^verbatim>\<open>ValueError\<close> (from \<^verbatim>\<open>max\<close> of the empty constraint) and
  produces no text, whether it is given a solution grid or not.  So whenever \<^verbatim>\<open>print\<close>
  returns a text, every column region has a non-empty constraint.
\<close>

theorem print_empty_column:
  assumes "wf_board b"
  shows "((\<exists>r\<in>set (regions b). is_column r = Inr True \<and> constraint r = []) \<longrightarrow>
            print_board b data = Inl ValueError)
       \<and> (\<forall>txt. print_board b data = Inr txt \<longrightarrow>
            (\<forall>r\<in>set (regions b). is_column r = Inr True \<longrightarrow> constraint r \<noteq> []))"
proof -
  have 1: "print_board b data = Inl ValueError"
    if h: "\<exists>r\<in>set (regions b). is_column r = Inr True \<and> constraint r = []"
  proof -
    have "regions b \<noteq> []" using h by auto
    then show ?thesis using table_space_error[OF assms h] by (rule print_board_table_error)
  qed
  have 2: "\<forall>r\<in>set (regions b). is_column r = Inr True \<longrightarrow> constraint r \<noteq> []"
    if "print_board b data = Inr out" for out
  proof (rule ccontr)
    assume "\<not> ?thesis"
    then have "\<exists>r\<in>set (regions b). is_column r = Inr True \<and> constraint r = []" by blast
    from 1[OF this] that show False by simp
  qed
  show ?thesis using 1 2 by blast
qed

theorem print_empty_column_witness:
  "wf_board (grid_2x2 [1] [2] [2] [])
   \<and> list_ex (\<lambda>r. is_column r = Inr True \<and> constraint r = []) (regions (grid_2x2 [1] [2] [2] []))
   \<and> print_board (grid_2x2 [1] [2] [2] []) None = Inl ValueError
   \<and> print_board (grid_2x2 [1] [2] [2] [])
        (Some [[\<lparr>cell_value = True\<rparr>, \<lparr>cell_value = False\<rparr>],
               [\<lparr>cell_value = True\<rparr>, \<lparr>cell_value = False\<rparr>]]) = Inl ValueError
   \<and> wf_board (grid_2x2 [1] [2] [2] [1])
   \<and> (\<exists>txt. print_board (grid_2x2 [1] [2] [2] [1]) None = Inr txt)
   \<and> list_all (\<lambda>r. is_column r \<noteq> Inr True \<or> constraint r \<noteq> []) (regions (grid_2x2 [1] [2] [2] [1]))"
proof -
  let ?bad = "grid_2x2 [1] [2] [2] []"
  let ?good = "grid_2x2 [1] [2] [2] [1]"
  have ex: "list_ex (\<lambda>r. is_column r = Inr True \<and> constraint r = []) (regions ?bad)"
    by code_simp
  then have h: "\<exists>r\<in>set (regions ?bad). is_column r = Inr True \<and> constraint r = []"
    by (simp add: list_ex_iff)
  have bad: "print_board ?bad data = Inl ValueError" for data
    using print_empty_column[OF wf_grid_2x2, of "[1]" "[2]" "[2]" "[]" data] h by blast
  have "\<forall>r\<in>set (regions ?good). is_column r = Inr True \<longrightarrow> constraint r \<noteq> []"
    using print_empty_column[OF wf_grid_2x2, of "[1]" "[2]" "[2]" "[1]" None] print_board_2x2
    by blast
  then have good: "list_all (\<lambda>r. is_column r \<noteq> Inr True \<or> constraint r \<noteq> []) (regions ?good)"
    by (auto simp: list_all_iff)
  show ?thesis using ex bad good print_board_2x2 wf_grid_2x2 by blast
qed

end
